theory Spec2Isabelle
  imports
    Complex_Main
    "HOL-Library.Multiset"
    "HOL-Library.List_Lexorder"
    "HOL-Library.Char_ord"
begin

section \<open>Numbers (the type \<open>number\<close> of TypeScript)\<close>

text \<open>
  A \<open>number\<close> is an IEEE double: a finite value, one of the two infinities, or NaN. The
  finite values are modelled as rationals. A comparison with NaN is false whichever way
  it is asked; a field that is absent from a level file reads as \<open>undefined\<close>, which a
  comparison converts to NaN, so NaN stands for an absent number as well.
\<close>

datatype Number = Num rat | PosInfinity | NegInfinity | NaN

text \<open>The operators \<open><\<close>, \<open>>\<close> and \<open>>=\<close> of the language on two numbers.\<close>

fun js_lt :: "Number \<Rightarrow> Number \<Rightarrow> bool" where
  "js_lt (Num a) (Num b) \<longleftrightarrow> a < b"
| "js_lt (Num a) PosInfinity \<longleftrightarrow> True"
| "js_lt NegInfinity (Num b) \<longleftrightarrow> True"
| "js_lt NegInfinity PosInfinity \<longleftrightarrow> True"
| "js_lt _ _ \<longleftrightarrow> False"

definition js_gt :: "Number \<Rightarrow> Number \<Rightarrow> bool" where
  "js_gt a b \<longleftrightarrow> js_lt b a"

definition js_ge :: "Number \<Rightarrow> Number \<Rightarrow> bool" where
  "js_ge a b \<longleftrightarrow> a \<noteq> NaN \<and> b \<noteq> NaN \<and> \<not> js_lt a b"

section \<open>Level validation (level.model.ts)\<close>

text \<open>
  The level that \<open>validateLevel\<close> is given is a candidate: nothing has been checked of
  it yet, and its numbers are whatever the level file delivered. The records of a
  candidate level are the interfaces \<open>Position\<close>, \<open>Crate\<close>, \<open>EndPosition\<close> and \<open>Level\<close>
  with every width, height and coordinate a \<open>Number\<close>; the level number only appears in
  messages and is an integer.
\<close>

record CandidatePosition =
  x :: Number
  y :: Number

record CandidateCrate =
  position :: CandidatePosition
  color :: "string option"

record CandidateEndPosition =
  position :: CandidatePosition
  color :: string

record CandidateLevel =
  number :: int
  width :: Number
  height :: Number
  walls :: "CandidatePosition list"
  crates :: "CandidateCrate list"
  playerStartPosition :: CandidatePosition
  endPositions :: "CandidateEndPosition list"

text \<open>
  \<open>validateLevel\<close> throws an \<open>Error\<close> whose message names the broken invariant and the
  offending values; the model returns the same information as a value.
\<close>

datatype PositionName = PlayerStart | WallNo nat | CrateNo nat | EndPositionNo nat

datatype Error =
    InvalidWidth Number
  | InvalidHeight Number
  | EndPositionCount int nat nat
  | ColorsDiffer int "string list" "string list"
  | InvalidPosition PositionName CandidatePosition int

definition validatePosition ::
  "CandidateLevel \<Rightarrow> CandidatePosition \<Rightarrow> PositionName \<Rightarrow> Error option" where
  "validatePosition lv pos name =
     (if js_lt (x pos) (Num 0) \<or> js_ge (x pos) (width lv) \<or>
         js_lt (y pos) (Num 0) \<or> js_ge (y pos) (height lv)
      then Some (InvalidPosition name pos (number lv)) else None)"

text \<open>\<open>forEach((p, i) => validatePosition(p, name i))\<close>: the first throw ends the loop.\<close>

fun validateEach ::
  "CandidateLevel \<Rightarrow> (nat \<Rightarrow> PositionName) \<Rightarrow> nat \<Rightarrow> CandidatePosition list \<Rightarrow> Error option" where
  "validateEach lv name i [] = None"
| "validateEach lv name i (pos # rest) =
     (case validatePosition lv pos (name i) of
        Some e \<Rightarrow> Some e
      | None \<Rightarrow> validateEach lv name (Suc i) rest)"

definition coloredCrates :: "CandidateLevel \<Rightarrow> CandidateCrate list" where
  "coloredCrates lv = filter (\<lambda>crate. CandidateCrate.color crate \<noteq> None) (crates lv)"

text \<open>
  The default \<open>sort()\<close> orders strings by their code units, a linear order; the
  lexicographic order on \<open>string\<close> stands for it. \<open>JSON.stringify\<close> is injective on
  arrays of strings, so the comparison of the two serialisations is the comparison of
  the two sorted arrays.
\<close>

definition crateColors :: "CandidateLevel \<Rightarrow> string list" where
  "crateColors lv = sort (map (\<lambda>c. the (CandidateCrate.color c)) (coloredCrates lv))"

definition endPositionColors :: "CandidateLevel \<Rightarrow> string list" where
  "endPositionColors lv = sort (map CandidateEndPosition.color (endPositions lv))"

text \<open>\<open>validateLevel(level)\<close>, on the level as it is given.\<close>

definition validateCandidate :: "CandidateLevel \<Rightarrow> Error + bool" where
  "validateCandidate lv =
     (if js_lt (width lv) (Num 1) \<or> js_gt (width lv) (Num 32) then Inl (InvalidWidth (width lv))
      else if js_lt (height lv) (Num 1) \<or> js_gt (height lv) (Num 32)
        then Inl (InvalidHeight (height lv))
      else if length (endPositions lv) \<noteq> length (coloredCrates lv)
        then Inl (EndPositionCount (number lv) (length (endPositions lv)) (length (coloredCrates lv)))
      else if crateColors lv \<noteq> endPositionColors lv
        then Inl (ColorsDiffer (number lv) (crateColors lv) (endPositionColors lv))
      else
        (case validatePosition lv (playerStartPosition lv) PlayerStart of
           Some e \<Rightarrow> Inl e
         | None \<Rightarrow>
        (case validateEach lv WallNo 0 (walls lv) of
           Some e \<Rightarrow> Inl e
         | None \<Rightarrow>
        (case validateEach lv CrateNo 0 (map CandidateCrate.position (crates lv)) of
           Some e \<Rightarrow> Inl e
         | None \<Rightarrow>
        (case validateEach lv EndPositionNo 0 (map CandidateEndPosition.position (endPositions lv)) of
           Some e \<Rightarrow> Inl e
         | None \<Rightarrow> Inr True)))))"

text \<open>
  The invariants of a level, in the words of the specification: the width and the height
  lie in [1,32], the goal colours are the colours of the coloured crates as multisets,
  and every referenced position lies in [0,width) x [0,height). An interval holds finite
  numbers only (every finite number lying below an infinite bound); NaN lies in none.
\<close>

definition referencedPositions :: "CandidateLevel \<Rightarrow> CandidatePosition list" where
  "referencedPositions lv =
     playerStartPosition lv # walls lv @ map CandidateCrate.position (crates lv)
       @ map CandidateEndPosition.position (endPositions lv)"

definition inRange :: "Number \<Rightarrow> bool" where
  "inRange v = (case v of Num r \<Rightarrow> 1 \<le> r \<and> r \<le> 32 | _ \<Rightarrow> False)"

definition inBounds :: "Number \<Rightarrow> Number \<Rightarrow> bool" where
  "inBounds v bound =
     (case v of
        Num r \<Rightarrow> 0 \<le> r \<and> (case bound of Num s \<Rightarrow> r < s | PosInfinity \<Rightarrow> True | _ \<Rightarrow> False)
      | _ \<Rightarrow> False)"

definition inGrid :: "CandidateLevel \<Rightarrow> CandidatePosition \<Rightarrow> bool" where
  "inGrid lv pos \<longleftrightarrow> inBounds (x pos) (width lv) \<and> inBounds (y pos) (height lv)"

definition levelInvariants :: "CandidateLevel \<Rightarrow> bool" where
  "levelInvariants lv \<longleftrightarrow>
     inRange (width lv) \<and> inRange (height lv) \<and>
     image_mset Some (mset (map CandidateEndPosition.color (endPositions lv)))
       = filter_mset (\<lambda>col. col \<noteq> None) (mset (map CandidateCrate.color (crates lv))) \<and>
     list_all (inGrid lv) (referencedPositions lv)"

text \<open>No width, height or coordinate of the level is NaN (or absent).\<close>

definition noNaN :: "CandidateLevel \<Rightarrow> bool" where
  "noNaN lv \<longleftrightarrow>
     width lv \<noteq> NaN \<and> height lv \<noteq> NaN \<and>
     list_all (\<lambda>pos. x pos \<noteq> NaN \<and> y pos \<noteq> NaN) (referencedPositions lv)"

text \<open>What an error says: the invariant it names is broken, at the value it carries.\<close>

fun named :: "CandidateLevel \<Rightarrow> PositionName \<Rightarrow> CandidatePosition \<Rightarrow> bool" where
  "named lv PlayerStart pos \<longleftrightarrow> pos = playerStartPosition lv"
| "named lv (WallNo i) pos \<longleftrightarrow> i < length (walls lv) \<and> pos = walls lv ! i"
| "named lv (CrateNo i) pos \<longleftrightarrow>
     i < length (crates lv) \<and> pos = CandidateCrate.position (crates lv ! i)"
| "named lv (EndPositionNo i) pos \<longleftrightarrow>
     i < length (endPositions lv) \<and> pos = CandidateEndPosition.position (endPositions lv ! i)"

definition describes :: "CandidateLevel \<Rightarrow> Error \<Rightarrow> bool" where
  "describes lv e =
     (case e of
        InvalidWidth w \<Rightarrow> w = width lv \<and> \<not> inRange w
      | InvalidHeight h \<Rightarrow> h = height lv \<and> \<not> inRange h
      | EndPositionCount n ne nc \<Rightarrow>
          n = number lv \<and> ne = length (endPositions lv) \<and> nc = length (coloredCrates lv) \<and> ne \<noteq> nc
      | ColorsDiffer n cc ec \<Rightarrow>
          n = number lv \<and> cc = crateColors lv \<and> ec = endPositionColors lv \<and> cc \<noteq> ec
      | InvalidPosition name pos n \<Rightarrow> n = number lv \<and> \<not> inGrid lv pos \<and> named lv name pos)"

section \<open>Data model of the game (models/*.ts)\<close>

text \<open>
  The level component is modelled on levels whose numbers are finite, and there a
  \<open>number\<close> is a rational: the grid coordinates of a level are whole numbers, while a
  sprite's coordinates take interpolated values during an animation. The fields of
  \<open>Position\<close> keep their source names \<open>x\<close> and \<open>y\<close>.
\<close>

record Position =
  x :: rat
  y :: rat

record Crate =
  position :: Position
  color :: "string option"

record EndPosition =
  position :: Position
  color :: string

record Level =
  number :: int
  width :: rat
  height :: rat
  walls :: "Position list"
  crates :: "Crate list"
  playerStartPosition :: Position
  endPositions :: "EndPosition list"

text \<open>The bounds test of \<open>handleMovement\<close>.\<close>

definition outOfBounds :: "Level \<Rightarrow> Position \<Rightarrow> bool" where
  "outOfBounds lv pos \<longleftrightarrow> x pos < 0 \<or> x pos \<ge> width lv \<or> y pos < 0 \<or> y pos \<ge> height lv"

text \<open>
  A level with finite numbers, read as the candidate that \<open>validateLevel\<close> is given, and
  \<open>validateLevel\<close> on such a level.
\<close>

definition candidatePosition :: "Position \<Rightarrow> CandidatePosition" where
  "candidatePosition pos = \<lparr>CandidatePosition.x = Num (x pos), CandidatePosition.y = Num (y pos)\<rparr>"

definition candidate :: "Level \<Rightarrow> CandidateLevel" where
  "candidate lv =
     \<lparr>CandidateLevel.number = number lv,
      CandidateLevel.width = Num (width lv),
      CandidateLevel.height = Num (height lv),
      CandidateLevel.walls = map candidatePosition (walls lv),
      CandidateLevel.crates =
        map (\<lambda>crate. \<lparr>CandidateCrate.position = candidatePosition (Crate.position crate),
                      CandidateCrate.color = Crate.color crate\<rparr>) (crates lv),
      CandidateLevel.playerStartPosition = candidatePosition (playerStartPosition lv),
      CandidateLevel.endPositions =
        map (\<lambda>e. \<lparr>CandidateEndPosition.position = candidatePosition (EndPosition.position e),
                  CandidateEndPosition.color = EndPosition.color e\<rparr>) (endPositions lv)\<rparr>"

definition validateLevel :: "Level \<Rightarrow> Error + bool" where
  "validateLevel lv = validateCandidate (candidate lv)"

section \<open>Levels of the scenarios\<close>

text \<open>
  The level of the specification's scenarios: width 4, height 4, the actor starting at
  (1,1), a red crate at (2,1) and a red goal at (3,1); the wall list is the parameter.
\<close>

definition scenarioLevel :: "Position list \<Rightarrow> Level" where
  "scenarioLevel ws =
     \<lparr>number = 1, width = 4, height = 4, walls = ws,
      crates = [\<lparr>Crate.position = \<lparr>x = 2, y = 1\<rparr>, Crate.color = Some ''#FF0000''\<rparr>],
      playerStartPosition = \<lparr>x = 1, y = 1\<rparr>,
      endPositions = [\<lparr>EndPosition.position = \<lparr>x = 3, y = 1\<rparr>, EndPosition.color = ''#FF0000''\<rparr>]\<rparr>"

text \<open>
  The scenario level with a wall at (99,1), as a candidate whose width is NaN (or
  absent).
\<close>

definition nanWidthLevel :: CandidateLevel where
  "nanWidthLevel = (candidate (scenarioLevel [\<lparr>x = 99, y = 1\<rparr>]))\<lparr>CandidateLevel.width := NaN\<rparr>"

section \<open>Sprites (sprites/*.ts)\<close>

datatype Direction = Up | Right | Down | Left

text \<open>
  \<open>BulldozerSprite\<close> and \<open>CrateSprite\<close> declare the same movement fields and the same
  \<open>startMoveTo\<close>, \<open>isAnimating\<close> and movement part of \<open>update\<close>; the model states them
  once, on a common base record. The drawing state (bobbing, smoke, pulse) is left out.
\<close>

record Sprite =
  position :: Position
  isMoving :: bool
  moveProgress :: rat
  moveStartPos :: Position
  moveEndPos :: Position

record BulldozerSprite = Sprite +
  direction :: Direction

record CrateSprite = Sprite +
  color :: "string option"

definition moveDuration :: rat where
  "moveDuration = 200"

definition new_BulldozerSprite :: "Position \<Rightarrow> Direction \<Rightarrow> BulldozerSprite" where
  "new_BulldozerSprite pos dir =
     \<lparr>position = pos, isMoving = False, moveProgress = 0,
      moveStartPos = pos, moveEndPos = pos, direction = dir\<rparr>"

definition new_CrateSprite :: "Position \<Rightarrow> string option \<Rightarrow> CrateSprite" where
  "new_CrateSprite pos col =
     \<lparr>position = pos, isMoving = False, moveProgress = 0,
      moveStartPos = pos, moveEndPos = pos, color = col\<rparr>"

definition setDirection :: "Direction \<Rightarrow> BulldozerSprite \<Rightarrow> BulldozerSprite" where
  "setDirection dir b = b\<lparr>direction := dir\<rparr>"

definition getDirection :: "BulldozerSprite \<Rightarrow> Direction" where
  "getDirection b = direction b"

definition getColor :: "CrateSprite \<Rightarrow> string option" where
  "getColor s = color s"

definition startMoveTo :: "Position \<Rightarrow> 'a Sprite_scheme \<Rightarrow> 'a Sprite_scheme" where
  "startMoveTo targetPosition s =
     (if \<not> isMoving s
      then s\<lparr>isMoving := True, moveProgress := 0,
             moveStartPos := position s, moveEndPos := targetPosition\<rparr>
      else s)"

definition isAnimating :: "'a Sprite_scheme \<Rightarrow> bool" where
  "isAnimating s = isMoving s"

definition easeInOutQuad :: "rat \<Rightarrow> rat" where
  "easeInOutQuad t = (if t < 1 / 2 then 2 * t * t else - 1 + (4 - 2 * t) * t)"

text \<open>
  The movement part of \<open>update(deltaTime)\<close>. The arithmetic of a frame is exact here,
  where the code rounds every operation to a double, so the progress of a move that takes
  several frames, the frame at which it reaches 1 and the positions in between may differ
  from the code's in the last digits. A frame that ends the move leaves the same sprite
  in both, at rest with its position a copy of \<open>moveEndPos\<close>; a frame of at least the move
  duration ends the move in both, whatever progress the frames before it have made, their
  times not being negative (\<open>deltaTime / moveDuration\<close> is then at least 1 in doubles as
  well); and an idle sprite is not touched. The properties of the claims speak of frames
  in these terms; of the one state in the middle of a move that they use, after a single
  frame of 160 ms, they read the grid cells only, the coordinates 2.92 and 1.92 being far
  from where \<open>Math.round\<close> changes.
\<close>

definition update_sprite :: "rat \<Rightarrow> 'a Sprite_scheme \<Rightarrow> 'a Sprite_scheme" where
  "update_sprite deltaTime s =
     (if isMoving s then
        (let progress = moveProgress s + deltaTime / moveDuration in
         if progress \<ge> 1
         then s\<lparr>moveProgress := 1, isMoving := False, position := moveEndPos s\<rparr>
         else
           (let t = easeInOutQuad progress in
            s\<lparr>moveProgress := progress,
              position :=
                \<lparr>x = x (moveStartPos s) + (x (moveEndPos s) - x (moveStartPos s)) * t,
                 y = y (moveStartPos s) + (y (moveEndPos s) - y (moveStartPos s)) * t\<rparr>\<rparr>))
      else s)"

text \<open>
  Modelled from the spec: \<open>BulldozerSprite.startPushAttempt\<close> is called by
  \<open>handleMovement\<close> on every blocked move, and its body is not among the sources. The
  specification says of a blocked move that no state changes besides the actor's facing,
  so the push attempt leaves every modelled field of the sprite as it is.
\<close>

definition startPushAttempt :: "rat \<Rightarrow> rat \<Rightarrow> BulldozerSprite \<Rightarrow> BulldozerSprite" where
  "startPushAttempt deltaX deltaY b = b"

section \<open>The level component (level.component.ts)\<close>

text \<open>\<open>Math.round\<close>: the nearest integer, halves towards \<open>+\<infinity>\<close>.\<close>

definition Math_round :: "rat \<Rightarrow> rat" where
  "Math_round v = of_int \<lfloor>v + 1 / 2\<rfloor>"

record LastMove =
  bulldozerPos :: Position
  bulldozerDirection :: Direction
  cratePos :: "Position option"
  crateIndex :: "nat option"

record LevelComponent =
  level :: "Level option"
  bulldozerSprite :: "BulldozerSprite option"
  crateSprites :: "CrateSprite list"
  isLevelComplete :: bool
  moveCount :: int
  lastMove :: "LastMove option"

text \<open>The component as its field initialisers leave it, before any level is loaded.\<close>

definition new_LevelComponent :: LevelComponent where
  "new_LevelComponent =
     \<lparr>level = None, bulldozerSprite = None, crateSprites = [],
      isLevelComplete = False, moveCount = 0, lastMove = None\<rparr>"

definition initializeLevel :: "LevelComponent \<Rightarrow> LevelComponent" where
  "initializeLevel c =
     (case level c of
        None \<Rightarrow> c
      | Some lv \<Rightarrow>
          c\<lparr>isLevelComplete := False,
            moveCount := 0,
            bulldozerSprite := Some (new_BulldozerSprite (playerStartPosition lv) Down),
            crateSprites :=
              map (\<lambda>crate. new_CrateSprite (Crate.position crate) (Crate.color crate)) (crates lv)\<rparr>)"

text \<open>
  \<open>loadLevel\<close> subscribes to the HTTP request for the level file; the argument is what
  the request delivers: \<open>Some\<close> level to the \<open>next\<close> callback, \<open>None\<close> for the \<open>error\<close>
  callback, which only logs.
\<close>

definition loadLevel :: "Level option \<Rightarrow> LevelComponent \<Rightarrow> LevelComponent" where
  "loadLevel response c =
     (case response of
        Some lv \<Rightarrow> initializeLevel (c\<lparr>level := Some lv\<rparr>)
      | None \<Rightarrow> c)"

text \<open>The component's \<open>update(deltaTime)\<close>, one animation frame.\<close>

definition update :: "rat \<Rightarrow> LevelComponent \<Rightarrow> LevelComponent" where
  "update deltaTime c =
     c\<lparr>bulldozerSprite := map_option (update_sprite deltaTime) (bulldozerSprite c),
       crateSprites := map (update_sprite deltaTime) (crateSprites c)\<rparr>"

definition isWall :: "LevelComponent \<Rightarrow> Position \<Rightarrow> bool" where
  "isWall c pos =
     (case level c of
        None \<Rightarrow> False
      | Some lv \<Rightarrow> list_ex (\<lambda>wall. x wall = x pos \<and> y wall = y pos) (walls lv))"

text \<open>The \<open>switch (key)\<close> of \<open>handleMovement\<close>: direction, deltaX, deltaY.\<close>

definition keySwitch :: "string \<Rightarrow> (Direction \<times> rat \<times> rat) option" where
  "keySwitch key =
     (if key = ''ArrowUp'' then Some (Up, 0, - 1)
      else if key = ''ArrowDown'' then Some (Down, 0, 1)
      else if key = ''ArrowLeft'' then Some (Left, - 1, 0)
      else if key = ''ArrowRight'' then Some (Right, 1, 0)
      else None)"

text \<open>
  The sprites of \<open>crateSprites\<close> are distinct objects, created one per crate by
  \<open>initializeLevel\<close>; a reference to one of them is its index in the array together with
  the sprite found there. \<open>find\<close> returns the first match.
\<close>

definition crateAtTarget :: "Position \<Rightarrow> CrateSprite list \<Rightarrow> (nat \<times> CrateSprite) option" where
  "crateAtTarget targetPos sprites =
     List.find (\<lambda>(i, crate). Math_round (x (position crate)) = x targetPos \<and>
                              Math_round (y (position crate)) = y targetPos)
       (enumerate 0 sprites)"

definition anotherCrate :: "nat \<Rightarrow> Position \<Rightarrow> CrateSprite list \<Rightarrow> (nat \<times> CrateSprite) option" where
  "anotherCrate found crateTargetPos sprites =
     List.find (\<lambda>(i, crate). i \<noteq> found \<and>
                              Math_round (x (position crate)) = x crateTargetPos \<and>
                              Math_round (y (position crate)) = y crateTargetPos)
       (enumerate 0 sprites)"

text \<open>
  \<open>handleMovement\<close> returns nothing; the model also returns which exit was taken:
  \<open>Ignored\<close> for the returns before the direction is set (no sprite or level, level
  complete, an animation running, a key that is no arrow), \<open>Blocked\<close> for the returns
  after \<open>startPushAttempt\<close>, \<open>Moved\<close> for the end of the function.
\<close>

datatype Outcome = Ignored | Blocked | Moved

text \<open>Lines 380 to 479: from \<open>setDirection\<close> on.\<close>

definition attemptMove ::
  "Level \<Rightarrow> BulldozerSprite \<Rightarrow> Direction \<Rightarrow> rat \<Rightarrow> rat \<Rightarrow> LevelComponent
     \<Rightarrow> Outcome \<times> LevelComponent" where
  "attemptMove lv b0 dir deltaX deltaY c =
     (let b = setDirection dir b0;
          currentPos = \<lparr>x = Math_round (x (position b)), y = Math_round (y (position b))\<rparr>;
          targetPos = \<lparr>x = x currentPos + deltaX, y = y currentPos + deltaY\<rparr>;
          blocked = (Blocked, c\<lparr>bulldozerSprite := Some (startPushAttempt deltaX deltaY b)\<rparr>)
      in
      if x targetPos < 0 \<or> x targetPos \<ge> width lv \<or> y targetPos < 0 \<or> y targetPos \<ge> height lv
      then blocked
      else if isWall c targetPos then blocked
      else
        (let previousBulldozerPos = currentPos;
             previousBulldozerDirection = getDirection b
         in
         case crateAtTarget targetPos (crateSprites c) of
           Some (i, crate) \<Rightarrow>
             (let crateTargetPos = \<lparr>x = x targetPos + deltaX, y = y targetPos + deltaY\<rparr> in
              if x crateTargetPos < 0 \<or> x crateTargetPos \<ge> width lv \<or>
                 y crateTargetPos < 0 \<or> y crateTargetPos \<ge> height lv
              then blocked
              else if isWall c crateTargetPos then blocked
              else if anotherCrate i crateTargetPos (crateSprites c) \<noteq> None then blocked
              else
                (let crateIndex = i;
                     previousCratePos =
                       \<lparr>x = Math_round (x (position crate)), y = Math_round (y (position crate))\<rparr>
                 in
                 (Moved,
                  c\<lparr>crateSprites := (crateSprites c)[i := startMoveTo crateTargetPos crate],
                    lastMove := Some \<lparr>bulldozerPos = previousBulldozerPos,
                                      bulldozerDirection = previousBulldozerDirection,
                                      cratePos = Some previousCratePos,
                                      crateIndex = Some crateIndex\<rparr>,
                    bulldozerSprite := Some (startMoveTo targetPos b),
                    moveCount := moveCount c + 1\<rparr>)))
         | None \<Rightarrow>
             (Moved,
              c\<lparr>lastMove := Some \<lparr>bulldozerPos = previousBulldozerPos,
                                  bulldozerDirection = previousBulldozerDirection,
                                  cratePos = None, crateIndex = None\<rparr>,
                bulldozerSprite := Some (startMoveTo targetPos b),
                moveCount := moveCount c + 1\<rparr>)))"

definition handleMovement :: "string \<Rightarrow> LevelComponent \<Rightarrow> Outcome \<times> LevelComponent" where
  "handleMovement key c =
     (case bulldozerSprite c of
        None \<Rightarrow> (Ignored, c)
      | Some b \<Rightarrow>
     (case level c of
        None \<Rightarrow> (Ignored, c)
      | Some lv \<Rightarrow>
          if isLevelComplete c then (Ignored, c)
          else if isAnimating b then (Ignored, c)
          else if list_ex isAnimating (crateSprites c) then (Ignored, c)
          else
            (case keySwitch key of
               None \<Rightarrow> (Ignored, c)
             | Some (dir, deltaX, deltaY) \<Rightarrow> attemptMove lv b dir deltaX deltaY c)))"

definition undoLastMove :: "LevelComponent \<Rightarrow> LevelComponent" where
  "undoLastMove c =
     (case lastMove c of
        None \<Rightarrow> c
      | Some lm \<Rightarrow>
     (case bulldozerSprite c of
        None \<Rightarrow> c
      | Some b \<Rightarrow>
          if isAnimating b then c
          else if list_ex isAnimating (crateSprites c) then c
          else
            c\<lparr>bulldozerSprite :=
                Some (setDirection (bulldozerDirection lm) (b\<lparr>position := bulldozerPos lm\<rparr>)),
              crateSprites :=
                (case (cratePos lm, crateIndex lm) of
                   (Some pos, Some i) \<Rightarrow>
                     if i < length (crateSprites c)
                     then (crateSprites c)[i := (crateSprites c ! i)\<lparr>position := pos\<rparr>]
                     else crateSprites c
                 | _ \<Rightarrow> crateSprites c),
              lastMove := None,
              moveCount := (if moveCount c > 0 then moveCount c - 1 else moveCount c)\<rparr>))"

text \<open>The value of \<open>allEndPositionsFilled\<close> in \<open>checkLevelCompletion\<close>.\<close>

definition allEndPositionsFilled :: "Level \<Rightarrow> CrateSprite list \<Rightarrow> bool" where
  "allEndPositionsFilled lv sprites =
     list_all
       (\<lambda>endPos.
          case List.find
                 (\<lambda>sprite. Math_round (x (position sprite)) = x (EndPosition.position endPos) \<and>
                            Math_round (y (position sprite)) = y (EndPosition.position endPos))
                 sprites of
            None \<Rightarrow> False
          | Some crateAtPosition \<Rightarrow> getColor crateAtPosition = Some (EndPosition.color endPos))
       (endPositions lv)"

definition checkLevelCompletion :: "LevelComponent \<Rightarrow> LevelComponent" where
  "checkLevelCompletion c =
     (case level c of
        None \<Rightarrow> c
      | Some lv \<Rightarrow>
          if isLevelComplete c then c
          else if allEndPositionsFilled lv (crateSprites c) then c\<lparr>isLevelComplete := True\<rparr>
          else c)"

section \<open>Vocabulary of the properties\<close>

text \<open>
  The grid cell of a position and of a sprite: the coordinates as \<open>handleMovement\<close> and
  \<open>checkLevelCompletion\<close> read them, through \<open>Math.round\<close>.
\<close>

definition cellAt :: "Position \<Rightarrow> Position" where
  "cellAt pos = \<lparr>x = Math_round (x pos), y = Math_round (y pos)\<rparr>"

definition cellOf :: "'a Sprite_scheme \<Rightarrow> Position" where
  "cellOf s = \<lparr>x = Math_round (x (position s)), y = Math_round (y (position s))\<rparr>"

text \<open>The game loop: one \<open>update(deltaTime)\<close> per animation frame.\<close>

definition frames :: "rat list \<Rightarrow> LevelComponent \<Rightarrow> LevelComponent" where
  "frames deltaTimes c = fold update deltaTimes c"

text \<open>The play state right after the scenario level has been loaded.\<close>

definition scenarioStart :: "Position list \<Rightarrow> LevelComponent" where
  "scenarioStart ws = loadLevel (Some (scenarioLevel ws)) new_LevelComponent"

text \<open>
  Two states show the same board when they agree on the level, the crate sprites, the
  completion flag and the bulldozer's position and movement state; the facing, the undo
  record and the move counter may differ.
\<close>

definition sameBoard :: "LevelComponent \<Rightarrow> LevelComponent \<Rightarrow> bool" where
  "sameBoard c c' \<longleftrightarrow>
     level c' = level c \<and> crateSprites c' = crateSprites c \<and>
     isLevelComplete c' = isLevelComplete c \<and>
     rel_option (\<lambda>b b'. position b' = position b \<and> isMoving b' = isMoving b)
       (bulldozerSprite c) (bulldozerSprite c')"

text \<open>
  A level the validator accepts in which a neutral crate and a red crate start on the same
  cell, the goal's.
\<close>

definition overlapLevel :: Level where
  "overlapLevel =
     (scenarioLevel [])
       \<lparr>crates := [\<lparr>Crate.position = \<lparr>x = 3, y = 1\<rparr>, Crate.color = None\<rparr>,
                   \<lparr>Crate.position = \<lparr>x = 3, y = 1\<rparr>, Crate.color = Some ''#FF0000''\<rparr>]\<rparr>"

text \<open>A second level with two crates on distinct cells, the second one at (2,1).\<close>

definition twoCrateLevel :: Level where
  "twoCrateLevel =
     \<lparr>number = 2, width = 4, height = 4, walls = [],
      crates = [\<lparr>Crate.position = \<lparr>x = 0, y = 0\<rparr>, Crate.color = Some ''#FF0000''\<rparr>,
                \<lparr>Crate.position = \<lparr>x = 2, y = 1\<rparr>, Crate.color = None\<rparr>],
      playerStartPosition = \<lparr>x = 1, y = 1\<rparr>,
      endPositions = [\<lparr>EndPosition.position = \<lparr>x = 3, y = 3\<rparr>, EndPosition.color = ''#FF0000''\<rparr>]\<rparr>"

text \<open>
  What happens to the component during play: a key reaches \<open>handleMovement\<close>, Ctrl+Z
  reaches \<open>undoLastMove\<close>, the game loop calls \<open>update\<close> with the time since the last
  frame, and the timer set by a move calls \<open>checkLevelCompletion\<close>.
\<close>

datatype Event = KeyDown string | UndoKey | Frame rat | CompletionTimer

fun step :: "Event \<Rightarrow> LevelComponent \<Rightarrow> LevelComponent" where
  "step (KeyDown key) c = snd (handleMovement key c)"
| "step UndoKey c = undoLastMove c"
| "step (Frame deltaTime) c = update deltaTime c"
| "step CompletionTimer c = checkLevelCompletion c"

definition run :: "Event list \<Rightarrow> LevelComponent \<Rightarrow> LevelComponent" where
  "run events c = fold step events c"

text \<open>Frame times are not negative.\<close>

fun elapses :: "Event \<Rightarrow> bool" where
  "elapses (Frame deltaTime) \<longleftrightarrow> 0 \<le> deltaTime"
| "elapses _ \<longleftrightarrow> True"

text \<open>Two positions whose cells are neighbours along one axis.\<close>

definition adjacentCells :: "Position \<Rightarrow> Position \<Rightarrow> bool" where
  "adjacentCells a b \<longleftrightarrow>
     (Math_round (x b) = Math_round (x a) \<and>
        (Math_round (y b) = Math_round (y a) + 1 \<or> Math_round (y b) = Math_round (y a) - 1)) \<or>
     (Math_round (y b) = Math_round (y a) \<and>
        (Math_round (x b) = Math_round (x a) + 1 \<or> Math_round (x b) = Math_round (x a) - 1))"

text \<open>
  The invariant of the crates: their cells are pairwise distinct; a crate in motion goes
  between neighbouring cells that no other crate occupies, and is the crate of the undo
  record; and the cell the undo record would put its crate back on is free of other crates.
\<close>

definition cratesApart :: "LevelComponent \<Rightarrow> bool" where
  "cratesApart c \<longleftrightarrow>
     (\<forall>i<length (crateSprites c). \<forall>j<length (crateSprites c).
        i \<noteq> j \<longrightarrow> cellOf (crateSprites c ! i) \<noteq> cellOf (crateSprites c ! j)) \<and>
     (\<forall>i<length (crateSprites c). isMoving (crateSprites c ! i) \<longrightarrow>
        0 \<le> moveProgress (crateSprites c ! i) \<and>
        adjacentCells (moveStartPos (crateSprites c ! i)) (moveEndPos (crateSprites c ! i)) \<and>
        (\<forall>j<length (crateSprites c). j \<noteq> i \<longrightarrow>
           cellOf (crateSprites c ! j) \<noteq> cellAt (moveStartPos (crateSprites c ! i)) \<and>
           cellOf (crateSprites c ! j) \<noteq> cellAt (moveEndPos (crateSprites c ! i))) \<and>
        (\<exists>r. lastMove c = Some r \<and> crateIndex r = Some i)) \<and>
     (\<forall>r i p. lastMove c = Some r \<and> crateIndex r = Some i \<and> cratePos r = Some p \<and>
        i < length (crateSprites c) \<longrightarrow>
        (\<forall>j<length (crateSprites c). j \<noteq> i \<longrightarrow> cellOf (crateSprites c ! j) \<noteq> cellAt p))"

section \<open>The level validator\<close>

lemma range_test: "js_lt v (Num 1) \<or> js_gt v (Num 32) \<Longrightarrow> \<not> inRange v"
  by (cases v) (auto simp: inRange_def js_gt_def)

lemma range_test_iff: "v \<noteq> NaN \<Longrightarrow> js_lt v (Num 1) \<or> js_gt v (Num 32) \<longleftrightarrow> \<not> inRange v"
  by (cases v) (auto simp: inRange_def js_gt_def)

lemma bounds_test: "js_lt v (Num 0) \<or> js_ge v bound \<Longrightarrow> \<not> inBounds v bound"
  by (cases v; cases bound) (auto simp: inBounds_def js_ge_def)

lemma bounds_test_iff:
  "v \<noteq> NaN \<Longrightarrow> bound \<noteq> NaN \<Longrightarrow> js_lt v (Num 0) \<or> js_ge v bound \<longleftrightarrow> \<not> inBounds v bound"
  by (cases v; cases bound) (auto simp: inBounds_def js_ge_def)

lemma validatePosition_Some:
  "validatePosition lv pos name = Some e \<Longrightarrow>
     \<not> inGrid lv pos \<and> e = InvalidPosition name pos (CandidateLevel.number lv)"
  using bounds_test[of "CandidatePosition.x pos" "CandidateLevel.width lv"]
        bounds_test[of "CandidatePosition.y pos" "CandidateLevel.height lv"]
  by (auto simp: validatePosition_def inGrid_def split: if_splits)

lemma validatePosition_None:
  assumes "CandidateLevel.width lv \<noteq> NaN" "CandidateLevel.height lv \<noteq> NaN"
    and "CandidatePosition.x pos \<noteq> NaN" "CandidatePosition.y pos \<noteq> NaN"
  shows "validatePosition lv pos name = None \<longleftrightarrow> inGrid lv pos"
  using bounds_test_iff[OF assms(3) assms(1)] bounds_test_iff[OF assms(4) assms(2)]
  by (auto simp: validatePosition_def inGrid_def)

lemma validateEach_None:
  assumes "CandidateLevel.width lv \<noteq> NaN" "CandidateLevel.height lv \<noteq> NaN"
    and "list_all (\<lambda>pos. CandidatePosition.x pos \<noteq> NaN \<and> CandidatePosition.y pos \<noteq> NaN) ps"
  shows "validateEach lv name i ps = None \<longleftrightarrow> list_all (inGrid lv) ps"
  using assms(3)
proof (induction ps arbitrary: i)
  case Nil
  then show ?case by simp
next
  case (Cons p ps)
  then have p: "CandidatePosition.x p \<noteq> NaN" "CandidatePosition.y p \<noteq> NaN"
    and ps: "list_all (\<lambda>pos. CandidatePosition.x pos \<noteq> NaN \<and> CandidatePosition.y pos \<noteq> NaN) ps"
    by simp_all
  note vp = validatePosition_None[OF assms(1,2) p]
  show ?case
  proof (cases "validatePosition lv p (name i)")
    case None
    then show ?thesis using vp[of "name i"] Cons.IH[OF ps] by simp
  next
    case (Some e)
    then show ?thesis using vp[of "name i"] by simp
  qed
qed

lemma sort_eq_iff_mset: "sort xs = sort ys \<longleftrightarrow> mset xs = mset (ys :: 'a::linorder list)"
proof
  assume "sort xs = sort ys"
  then have "mset (sort xs) = mset (sort ys)" by simp
  then show "mset xs = mset ys" by simp
next
  assume "mset xs = mset ys"
  then show "sort xs = sort ys"
    by (metis mset_sort properties_for_sort sorted_sort)
qed

lemma colored_mset:
  "image_mset Some (mset (map (\<lambda>c. the (CandidateCrate.color c)) (coloredCrates lv)))
     = filter_mset (\<lambda>col. col \<noteq> None) (mset (map CandidateCrate.color (CandidateLevel.crates lv)))"
  unfolding coloredCrates_def
  by (induction "CandidateLevel.crates lv" arbitrary: lv) (auto simp: filter_mset_image_mset image_mset_filter_mset_swap multiset.map_comp intro!: image_mset_cong)

lemma validateEach_Some:
  "validateEach lv name i ps = Some e \<Longrightarrow>
     \<exists>k<length ps. e = InvalidPosition (name (i + k)) (ps ! k) (CandidateLevel.number lv) \<and>
        \<not> inGrid lv (ps ! k)"
proof (induction ps arbitrary: i)
  case Nil
  then show ?case by simp
next
  case (Cons p ps)
  show ?case
  proof (cases "validatePosition lv p (name i)")
    case None
    with Cons.prems have "validateEach lv name (Suc i) ps = Some e" by simp
    from Cons.IH[OF this] obtain k where
      "k < length ps" "e = InvalidPosition (name (Suc i + k)) (ps ! k) (CandidateLevel.number lv)"
      "\<not> inGrid lv (ps ! k)" by blast
    then show ?thesis by (intro exI[of _ "Suc k"]) simp
  next
    case (Some e')
    with Cons.prems have "e = e'" by simp
    with Some validatePosition_Some[of lv p "name i" e'] show ?thesis
      by (intro exI[of _ 0]) simp
  qed
qed

lemma image_mset_Some_eq: "image_mset Some A = image_mset Some B \<longleftrightarrow> A = B"
proof
  assume h: "image_mset Some A = image_mset Some B"
  have "\<And>M::'a multiset. image_mset the (image_mset Some M) = M"
    by (simp add: multiset.map_comp comp_def)
  then show "A = B" using h by metis
qed simp

lemma colors_agree_iff:
  "crateColors lv = endPositionColors lv \<longleftrightarrow>
     image_mset Some (mset (map CandidateEndPosition.color (CandidateLevel.endPositions lv)))
       = filter_mset (\<lambda>col. col \<noteq> None) (mset (map CandidateCrate.color (CandidateLevel.crates lv)))"
proof -
  have "crateColors lv = endPositionColors lv \<longleftrightarrow>
          mset (map (\<lambda>c. the (CandidateCrate.color c)) (coloredCrates lv))
            = mset (map CandidateEndPosition.color (CandidateLevel.endPositions lv))"
    unfolding crateColors_def endPositionColors_def by (rule sort_eq_iff_mset)
  also have "\<dots> \<longleftrightarrow>
          image_mset Some (mset (map (\<lambda>c. the (CandidateCrate.color c)) (coloredCrates lv)))
            = image_mset Some (mset (map CandidateEndPosition.color (CandidateLevel.endPositions lv)))"
    by (simp only: image_mset_Some_eq)
  also have "\<dots> \<longleftrightarrow>
          image_mset Some (mset (map CandidateEndPosition.color (CandidateLevel.endPositions lv)))
            = filter_mset (\<lambda>col. col \<noteq> None) (mset (map CandidateCrate.color (CandidateLevel.crates lv)))"
    unfolding colored_mset by (rule eq_commute)
  finally show ?thesis .
qed

lemma colors_agree_length:
  "crateColors lv = endPositionColors lv \<Longrightarrow>
     length (CandidateLevel.endPositions lv) = length (coloredCrates lv)"
  unfolding crateColors_def endPositionColors_def
  by (metis length_map length_sort)

lemma validateEach_Some_not_all:
  "validateEach lv name i ps = Some e \<Longrightarrow> \<not> list_all (inGrid lv) ps"
  by (drule validateEach_Some) (auto simp: list_all_length)

lemma validateCandidate_Inr:
  assumes "noNaN lv"
  shows "validateCandidate lv = Inr b \<longleftrightarrow>
     b \<and> inRange (CandidateLevel.width lv) \<and> inRange (CandidateLevel.height lv) \<and>
     crateColors lv = endPositionColors lv \<and> list_all (inGrid lv) (referencedPositions lv)"
proof -
  from assms have w: "CandidateLevel.width lv \<noteq> NaN" and h: "CandidateLevel.height lv \<noteq> NaN"
    and p: "CandidatePosition.x (CandidateLevel.playerStartPosition lv) \<noteq> NaN"
           "CandidatePosition.y (CandidateLevel.playerStartPosition lv) \<noteq> NaN"
    and ws: "list_all (\<lambda>pos. CandidatePosition.x pos \<noteq> NaN \<and> CandidatePosition.y pos \<noteq> NaN)
               (CandidateLevel.walls lv)"
    and cs: "list_all (\<lambda>pos. CandidatePosition.x pos \<noteq> NaN \<and> CandidatePosition.y pos \<noteq> NaN)
               (map CandidateCrate.position (CandidateLevel.crates lv))"
    and es: "list_all (\<lambda>pos. CandidatePosition.x pos \<noteq> NaN \<and> CandidatePosition.y pos \<noteq> NaN)
               (map CandidateEndPosition.position (CandidateLevel.endPositions lv))"
    by (simp_all add: noNaN_def referencedPositions_def)
  note vp = validatePosition_None[OF w h p]
  note vw = validateEach_None[OF w h ws]
  note vc = validateEach_None[OF w h cs]
  note ve = validateEach_None[OF w h es]
  show ?thesis
    unfolding validateCandidate_def referencedPositions_def
    using colors_agree_length[of lv] range_test_iff[OF w] range_test_iff[OF h]
    by (auto simp: vp vw vc ve split: option.splits
             dest: validateEach_Some_not_all validatePosition_Some)
qed

lemma validateCandidate_ok:
  "noNaN lv \<Longrightarrow> validateCandidate lv = Inr b \<longleftrightarrow> b \<and> levelInvariants lv"
  unfolding levelInvariants_def colors_agree_iff[symmetric] by (rule validateCandidate_Inr)

lemma validateCandidate_describes: "validateCandidate lv = Inl e \<Longrightarrow> describes lv e"
  unfolding validateCandidate_def
  using range_test[of "CandidateLevel.width lv"] range_test[of "CandidateLevel.height lv"]
  by (auto simp: describes_def split: if_splits option.splits
           dest!: validateEach_Some validatePosition_Some)

lemma noNaN_candidate: "noNaN (candidate lv)"
  by (auto simp: noNaN_def candidate_def referencedPositions_def candidatePosition_def
        list_all_iff)

text \<open>
  C7, as amended. On a candidate level none of whose width, height and coordinates is NaN
  (or absent), be they finite or infinite, \<open>validateLevel\<close> (\<open>validateCandidate\<close> in the
  model) raises an error exactly when the width or the height lies outside [1,32], or the multiset of goal colours differs from the multiset of the colours
  of the coloured crates, or one of the referenced positions (player start, walls, crates,
  goals) lies outside [0,width) x [0,height); on a level that satisfies these invariants
  it returns true; and an error it raises names the broken invariant and the offending
  value.
\<close>

theorem validateLevel_raises_iff:
  assumes "noNaN lv"
  shows "((\<exists>e. validateCandidate lv = Inl e) \<longleftrightarrow>
      (\<not> inRange (CandidateLevel.width lv) \<or> \<not> inRange (CandidateLevel.height lv) \<or>
       image_mset Some (mset (map CandidateEndPosition.color (CandidateLevel.endPositions lv)))
         \<noteq> filter_mset (\<lambda>col. col \<noteq> None) (mset (map CandidateCrate.color (CandidateLevel.crates lv))) \<or>
       (\<exists>pos \<in> set (referencedPositions lv). \<not> inGrid lv pos)))
   \<and> (levelInvariants lv \<longrightarrow> validateCandidate lv = Inr True)
   \<and> (\<forall>e. validateCandidate lv = Inl e \<longrightarrow> describes lv e)"
proof -
  note ok = validateCandidate_ok[OF assms]
  have "(\<exists>e. validateCandidate lv = Inl e) \<longleftrightarrow> \<not> levelInvariants lv"
  proof (cases "validateCandidate lv")
    case (Inl e)
    then show ?thesis using ok by auto
  next
    case (Inr b)
    then show ?thesis using ok[of b] by auto
  qed
  moreover have "levelInvariants lv \<longrightarrow> validateCandidate lv = Inr True"
    by (simp add: ok)
  moreover have "levelInvariants lv \<longleftrightarrow>
     \<not> (\<not> inRange (CandidateLevel.width lv) \<or> \<not> inRange (CandidateLevel.height lv) \<or>
       image_mset Some (mset (map CandidateEndPosition.color (CandidateLevel.endPositions lv)))
         \<noteq> filter_mset (\<lambda>col. col \<noteq> None) (mset (map CandidateCrate.color (CandidateLevel.crates lv))) \<or>
       (\<exists>pos \<in> set (referencedPositions lv). \<not> inGrid lv pos))"
    unfolding levelInvariants_def list_all_iff by blast
  ultimately show ?thesis
    using validateCandidate_describes by blast
qed

theorem validateLevel_raises_iff_witness:
  "noNaN (candidate (scenarioLevel [])) \<and> levelInvariants (candidate (scenarioLevel [])) \<and>
   validateCandidate (candidate (scenarioLevel [])) = Inr True"
proof -
  have n: "noNaN (candidate (scenarioLevel []))" by (rule noNaN_candidate)
  have i: "levelInvariants (candidate (scenarioLevel []))"
    by (simp add: levelInvariants_def scenarioLevel_def referencedPositions_def inGrid_def
          candidate_def candidatePosition_def inRange_def inBounds_def)
  from validateLevel_raises_iff[OF n] n i show ?thesis by blast
qed

text \<open>
  C7, as stated. The width of \<open>nanWidthLevel\<close> is NaN, which lies outside [1,32], and
  its wall at (99,1) lies in no grid; every comparison of the validator with the width is
  false, no error is raised, and \<open>validateLevel\<close> (\<open>validateCandidate\<close>) returns true.
\<close>

theorem validateLevel_accepts_NaN_width:
  "validateCandidate nanWidthLevel = Inr True \<and>
   CandidateLevel.width nanWidthLevel = NaN \<and>
   CandidateLevel.walls nanWidthLevel = [\<lparr>CandidatePosition.x = Num 99, CandidatePosition.y = Num 1\<rparr>] \<and>
   \<not> inRange (CandidateLevel.width nanWidthLevel) \<and>
   \<not> list_all (inGrid nanWidthLevel) (referencedPositions nanWidthLevel)"
  by (simp add: nanWidthLevel_def validateCandidate_def candidate_def candidatePosition_def
        scenarioLevel_def coloredCrates_def crateColors_def endPositionColors_def
        validatePosition_def js_gt_def js_ge_def inRange_def inGrid_def inBounds_def
        referencedPositions_def)

section \<open>Rounding, cells and animation frames\<close>

lemma Math_round_add_int: "Math_round (v + of_int k) = Math_round v + of_int k"
proof -
  have "v + of_int k + 1 / 2 = v + 1 / 2 + of_int k" by simp
  moreover have "\<lfloor>v + 1 / 2 + of_int k\<rfloor> = \<lfloor>v + 1 / 2\<rfloor> + k"
    by (rule floor_add_int[symmetric])
  ultimately show ?thesis unfolding Math_round_def by (simp only: of_int_add)
qed

lemma Math_round_zero [simp]: "Math_round 0 = 0"
proof -
  have "\<lfloor>(1 / 2 :: rat)\<rfloor> = 0" by (rule floor_unique) simp_all
  then show ?thesis by (simp add: Math_round_def)
qed

lemma Math_round_of_int [simp]: "Math_round (of_int n) = of_int n"
  using Math_round_add_int[of 0 n] by simp

lemma Math_round_idem [simp]: "Math_round (Math_round v) = Math_round v"
  unfolding Math_round_def[of v] by (rule Math_round_of_int)

lemma Math_round_shift [simp]:
  "Math_round (v + 1) = Math_round v + 1"
  "Math_round (v - 1) = Math_round v - 1"
  using Math_round_add_int[of v 1] Math_round_add_int[of v "- 1"] by simp_all

lemma Math_round_mono: "a \<le> b \<Longrightarrow> Math_round a \<le> Math_round b"
  by (simp add: Math_round_def floor_mono)

lemma cellOf_eq_iff:
  "cellOf s = p \<longleftrightarrow> Math_round (x (position s)) = x p \<and> Math_round (y (position s)) = y p"
  by (cases p) (simp add: cellOf_def)

lemma crateAtTarget_Some:
  "crateAtTarget p cs = Some (i, crate) \<longleftrightarrow>
     i < length cs \<and> crate = cs ! i \<and> cellOf (cs ! i) = p \<and> (\<forall>j<i. cellOf (cs ! j) \<noteq> p)"
proof -
  have nth: "\<And>k. k < length cs \<Longrightarrow> enumerate 0 cs ! k = (k, cs ! k)"
    by (simp add: nth_enumerate_eq)
  show ?thesis
    unfolding crateAtTarget_def find_Some_iff cellOf_eq_iff
  proof (intro iffI; elim exE conjE)
    fix k
    assume k: "k < length (enumerate 0 cs)"
      and hit: "case enumerate 0 cs ! k of (i, crate) \<Rightarrow>
                  Math_round (x (position crate)) = x p \<and> Math_round (y (position crate)) = y p"
      and eq: "(i, crate) = enumerate 0 cs ! k"
      and first: "\<forall>j<k. \<not> (case enumerate 0 cs ! j of (i, crate) \<Rightarrow>
                  Math_round (x (position crate)) = x p \<and> Math_round (y (position crate)) = y p)"
    from k have k': "k < length cs" by simp
    from eq nth[OF k'] have ik: "i = k" "crate = cs ! k" by simp_all
    from hit nth[OF k'] have "Math_round (x (position (cs ! k))) = x p \<and> Math_round (y (position (cs ! k))) = y p"
      by simp
    moreover have "\<forall>j<k. \<not> (Math_round (x (position (cs ! j))) = x p \<and> Math_round (y (position (cs ! j))) = y p)"
    proof (intro allI impI)
      fix j assume "j < k"
      with first k' nth[of j] show "\<not> (Math_round (x (position (cs ! j))) = x p \<and> Math_round (y (position (cs ! j))) = y p)"
        by auto
    qed
    ultimately show "i < length cs \<and> crate = cs ! i \<and>
        (Math_round (x (position (cs ! i))) = x p \<and> Math_round (y (position (cs ! i))) = y p) \<and>
        (\<forall>j<i. \<not> (Math_round (x (position (cs ! j))) = x p \<and> Math_round (y (position (cs ! j))) = y p))"
      using ik k' by simp
  next
    assume i: "i < length cs" and c: "crate = cs ! i"
      and hit: "Math_round (x (position (cs ! i))) = x p" "Math_round (y (position (cs ! i))) = y p"
      and first: "\<forall>j<i. \<not> (Math_round (x (position (cs ! j))) = x p \<and> Math_round (y (position (cs ! j))) = y p)"
    show "\<exists>k<length (enumerate 0 cs).
            (case enumerate 0 cs ! k of (i, crate) \<Rightarrow>
               Math_round (x (position crate)) = x p \<and> Math_round (y (position crate)) = y p) \<and>
            (i, crate) = enumerate 0 cs ! k \<and>
            (\<forall>j<k. \<not> (case enumerate 0 cs ! j of (i, crate) \<Rightarrow>
               Math_round (x (position crate)) = x p \<and> Math_round (y (position crate)) = y p))"
      using i c hit first by (intro exI[of _ i]) (simp add: nth_enumerate_eq)
  qed
qed

lemma crateAtTarget_None:
  "crateAtTarget p cs = None \<longleftrightarrow> (\<forall>j<length cs. cellOf (cs ! j) \<noteq> p)"
  unfolding crateAtTarget_def find_None_iff cellOf_eq_iff
  by (auto simp: in_set_enumerate_eq)

lemma anotherCrate_None:
  "anotherCrate i p cs = None \<longleftrightarrow> (\<forall>j<length cs. j \<noteq> i \<longrightarrow> cellOf (cs ! j) \<noteq> p)"
  unfolding anotherCrate_def find_None_iff cellOf_eq_iff
  by (auto simp: in_set_enumerate_eq)

lemma fold_update_sprite_idle: "\<not> isMoving s \<Longrightarrow> fold update_sprite dts s = s"
  by (induction dts) (simp_all add: update_sprite_def)

lemma fold_update_sprite_done:
  "isMoving s \<Longrightarrow> moveProgress s < 1 \<Longrightarrow> \<forall>dt\<in>set dts. 0 \<le> dt \<Longrightarrow>
   1 \<le> moveProgress s + sum_list dts / moveDuration \<Longrightarrow>
   fold update_sprite dts s = s\<lparr>moveProgress := 1, isMoving := False, position := moveEndPos s\<rparr>"
proof (induction dts arbitrary: s)
  case Nil
  then show ?case by simp
next
  case (Cons dt dts)
  let ?p = "moveProgress s + dt / moveDuration"
  show ?case
  proof (cases "1 \<le> ?p")
    case True
    with Cons.prems(1) have
      "update_sprite dt s = s\<lparr>moveProgress := 1, isMoving := False, position := moveEndPos s\<rparr>"
      by (simp add: update_sprite_def)
    then show ?thesis by (simp add: fold_update_sprite_idle)
  next
    case False
    define s' where "s' = update_sprite dt s"
    from False Cons.prems(1) have s': "isMoving s'" "moveProgress s' = ?p" "moveEndPos s' = moveEndPos s"
      by (simp_all add: s'_def update_sprite_def Let_def)
    have "fold update_sprite dts s' = s'\<lparr>moveProgress := 1, isMoving := False, position := moveEndPos s'\<rparr>"
    proof (rule Cons.IH)
      show "isMoving s'" by (rule s')
      show "moveProgress s' < 1" using False s' by simp
      show "\<forall>dt\<in>set dts. 0 \<le> dt" using Cons.prems(3) by simp
      show "1 \<le> moveProgress s' + sum_list dts / moveDuration"
        using Cons.prems(4) s' by (simp add: add_divide_distrib add.assoc)
    qed
    also have "\<dots> = s\<lparr>moveProgress := 1, isMoving := False, position := moveEndPos s\<rparr>"
      using False Cons.prems(1) by (simp add: s'_def update_sprite_def Let_def)
    finally show ?thesis by (simp add: s'_def)
  qed
qed

lemma fold_update_sprite_rest:
  "isMoving s \<Longrightarrow> \<not> isMoving (fold update_sprite dts s) \<Longrightarrow>
   fold update_sprite dts s = s\<lparr>moveProgress := 1, isMoving := False, position := moveEndPos s\<rparr>"
proof (induction dts arbitrary: s)
  case Nil
  then show ?case by simp
next
  case (Cons dt dts)
  let ?p = "moveProgress s + dt / moveDuration"
  show ?case
  proof (cases "1 \<le> ?p")
    case True
    with Cons.prems(1) have
      "update_sprite dt s = s\<lparr>moveProgress := 1, isMoving := False, position := moveEndPos s\<rparr>"
      by (simp add: update_sprite_def)
    then show ?thesis by (simp add: fold_update_sprite_idle)
  next
    case False
    define s' where "s' = update_sprite dt s"
    from False Cons.prems(1) have s': "isMoving s'" "moveEndPos s' = moveEndPos s"
      by (simp_all add: s'_def update_sprite_def Let_def)
    have "\<not> isMoving (fold update_sprite dts s')"
      using Cons.prems(2) by (simp add: s'_def)
    with s'(1) have
      "fold update_sprite dts s' = s'\<lparr>moveProgress := 1, isMoving := False, position := moveEndPos s'\<rparr>"
      by (rule Cons.IH)
    also have "\<dots> = s\<lparr>moveProgress := 1, isMoving := False, position := moveEndPos s\<rparr>"
      using False Cons.prems(1) by (simp add: s'_def update_sprite_def Let_def)
    finally show ?thesis by (simp add: s'_def)
  qed
qed

lemma frames_eq:
  "frames dts c =
     c\<lparr>bulldozerSprite := map_option (fold update_sprite dts) (bulldozerSprite c),
       crateSprites := map (fold update_sprite dts) (crateSprites c)\<rparr>"
  unfolding frames_def
proof (induction dts arbitrary: c)
  case Nil
  then show ?case by (simp add: option.map_ident)
next
  case (Cons dt dts)
  have "fold update (dt # dts) c = fold update dts (update dt c)" by simp
  also have "\<dots> = (update dt c)
      \<lparr>bulldozerSprite := map_option (fold update_sprite dts) (bulldozerSprite (update dt c)),
       crateSprites := map (fold update_sprite dts) (crateSprites (update dt c))\<rparr>"
    by (rule Cons.IH)
  also have "\<dots> = c
      \<lparr>bulldozerSprite := map_option (fold update_sprite (dt # dts)) (bulldozerSprite c),
       crateSprites := map (fold update_sprite (dt # dts)) (crateSprites c)\<rparr>"
    by (simp add: update_def option.map_comp comp_def)
  finally show ?case .
qed


lemma attemptMove_Blocked:
  "fst (attemptMove lv b dir dx dy c) = Blocked \<Longrightarrow>
   snd (attemptMove lv b dir dx dy c) = c\<lparr>bulldozerSprite := Some (b\<lparr>direction := dir\<rparr>)\<rparr>"
  by (auto simp: attemptMove_def Let_def startPushAttempt_def setDirection_def
           split: if_splits option.splits prod.splits)

lemma attemptMove_not_Ignored: "fst (attemptMove lv b dir dx dy c) \<noteq> Ignored"
  by (auto simp: attemptMove_def Let_def split: if_splits option.splits prod.splits)

lemma handleMovement_accepted:
  "level c = Some lv \<Longrightarrow> bulldozerSprite c = Some b \<Longrightarrow> \<not> isLevelComplete c \<Longrightarrow>
   \<not> isAnimating b \<Longrightarrow> \<not> list_ex isAnimating (crateSprites c) \<Longrightarrow>
   keySwitch key = Some (dir, dx, dy) \<Longrightarrow>
   handleMovement key c = attemptMove lv b dir dx dy c"
  by (simp add: handleMovement_def)

lemma handleMovement_not_Ignored:
  "fst (handleMovement key c) \<noteq> Ignored \<Longrightarrow>
   \<exists>lv b dir dx dy. level c = Some lv \<and> bulldozerSprite c = Some b \<and> \<not> isLevelComplete c \<and>
     \<not> isAnimating b \<and> \<not> list_ex isAnimating (crateSprites c) \<and>
     keySwitch key = Some (dir, dx, dy) \<and> handleMovement key c = attemptMove lv b dir dx dy c"
  by (auto simp: handleMovement_def split: option.splits if_splits)

lemma handleMovement_Ignored: "fst (handleMovement key c) = Ignored \<Longrightarrow> snd (handleMovement key c) = c"
  by (auto simp: handleMovement_def attemptMove_not_Ignored split: option.splits if_splits)

lemma Math_round_numeral [simp]:
  "Math_round (numeral n) = numeral n" "Math_round 1 = 1" "Math_round (- numeral n) = - numeral n"
  using Math_round_of_int[of "numeral n"] Math_round_of_int[of 1] Math_round_of_int[of "- numeral n"]
  by simp_all

section \<open>Move resolution\<close>

lemma idle_nth: "\<not> list_ex isAnimating cs \<Longrightarrow> j < length cs \<Longrightarrow> \<not> isMoving (cs ! j)"
  by (auto simp: list_ex_iff isAnimating_def)

lemma attemptMove_push:
  assumes "target = \<lparr>x = x (cellOf b) + dx, y = y (cellOf b) + dy\<rparr>"
    and "\<not> outOfBounds lv target" "\<not> isWall c target"
    and "crateAtTarget target (crateSprites c) = Some (i, crate)"
    and "crateTarget = \<lparr>x = x target + dx, y = y target + dy\<rparr>"
    and "\<not> outOfBounds lv crateTarget" "\<not> isWall c crateTarget"
    and "anotherCrate i crateTarget (crateSprites c) = None"
  shows "attemptMove lv b dir dx dy c =
    (Moved,
     c\<lparr>crateSprites := (crateSprites c)[i := startMoveTo crateTarget crate],
       lastMove := Some \<lparr>bulldozerPos = cellOf b, bulldozerDirection = dir,
                         cratePos = Some (cellOf crate), crateIndex = Some i\<rparr>,
       bulldozerSprite := Some (startMoveTo target (b\<lparr>direction := dir\<rparr>)),
       moveCount := moveCount c + 1\<rparr>)"
  using assms
  by (simp add: attemptMove_def Let_def outOfBounds_def cellOf_def setDirection_def getDirection_def)

lemma attemptMove_free:
  assumes "target = \<lparr>x = x (cellOf b) + dx, y = y (cellOf b) + dy\<rparr>"
    and "\<not> outOfBounds lv target" "\<not> isWall c target"
    and "crateAtTarget target (crateSprites c) = None"
  shows "attemptMove lv b dir dx dy c =
    (Moved,
     c\<lparr>lastMove := Some \<lparr>bulldozerPos = cellOf b, bulldozerDirection = dir,
                         cratePos = None, crateIndex = None\<rparr>,
       bulldozerSprite := Some (startMoveTo target (b\<lparr>direction := dir\<rparr>)),
       moveCount := moveCount c + 1\<rparr>)"
  using assms
  by (simp add: attemptMove_def Let_def outOfBounds_def cellOf_def setDirection_def getDirection_def)

lemma attemptMove_blocked:
  assumes "target = \<lparr>x = x (cellOf b) + dx, y = y (cellOf b) + dy\<rparr>"
    and "crateTarget = \<lparr>x = x target + dx, y = y target + dy\<rparr>"
    and "outOfBounds lv target \<or> isWall c target \<or>
         (\<exists>i crate. crateAtTarget target (crateSprites c) = Some (i, crate) \<and>
            (outOfBounds lv crateTarget \<or> isWall c crateTarget \<or>
             anotherCrate i crateTarget (crateSprites c) \<noteq> None))"
  shows "attemptMove lv b dir dx dy c = (Blocked, c\<lparr>bulldozerSprite := Some (b\<lparr>direction := dir\<rparr>)\<rparr>)"
  using assms
  by (auto simp: attemptMove_def Let_def outOfBounds_def cellOf_def setDirection_def
        startPushAttempt_def)

lemma settle_started:
  assumes "\<not> isMoving s" "\<forall>dt\<in>set dts. 0 \<le> dt" "moveDuration \<le> sum_list dts"
  shows "fold update_sprite dts (startMoveTo p s) =
         s\<lparr>isMoving := False, moveProgress := 1, moveStartPos := position s, moveEndPos := p,
           position := p\<rparr>"
proof -
  let ?s = "startMoveTo p s"
  have s: "?s = s\<lparr>isMoving := True, moveProgress := 0, moveStartPos := position s, moveEndPos := p\<rparr>"
    using assms(1) by (simp add: startMoveTo_def)
  have "fold update_sprite dts ?s = ?s\<lparr>moveProgress := 1, isMoving := False, position := moveEndPos ?s\<rparr>"
  proof (rule fold_update_sprite_done)
    show "isMoving ?s" "moveProgress ?s < 1" by (simp_all add: s)
    show "\<forall>dt\<in>set dts. 0 \<le> dt" by (rule assms)
    show "1 \<le> moveProgress ?s + sum_list dts / moveDuration"
      using assms(3) by (simp add: s moveDuration_def)
  qed
  then show ?thesis by (simp add: s)
qed

lemma rest_started:
  assumes "\<not> isMoving s" "\<not> isMoving (fold update_sprite dts (startMoveTo p s))"
  shows "position (fold update_sprite dts (startMoveTo p s)) = p"
proof -
  let ?s = "startMoveTo p s"
  have s: "?s = s\<lparr>isMoving := True, moveProgress := 0, moveStartPos := position s, moveEndPos := p\<rparr>"
    using assms(1) by (simp add: startMoveTo_def)
  have "isMoving ?s" by (simp add: s)
  from fold_update_sprite_rest[OF this assms(2)] show ?thesis by (simp add: s)
qed

lemma last_frame:
  assumes "\<forall>t\<in>set dts. 0 \<le> t" "moveDuration \<le> dt"
  shows "\<forall>t\<in>set (dts @ [dt]). 0 \<le> t" "moveDuration \<le> sum_list (dts @ [dt])"
proof -
  have "0 \<le> dt" using assms(2) by (simp add: moveDuration_def)
  then show "\<forall>t\<in>set (dts @ [dt]). 0 \<le> t" using assms(1) by simp
  have "0 \<le> sum_list dts" using assms(1) by (simp add: sum_list_nonneg)
  then show "moveDuration \<le> sum_list (dts @ [dt])" using assms(2) by simp
qed

lemma push_started:
  assumes ready: "level c = Some lv" "bulldozerSprite c = Some b" "\<not> isLevelComplete c"
      "\<not> isAnimating b" "\<not> list_ex isAnimating (crateSprites c)"
    and key: "keySwitch key = Some (dir, dx, dy)"
    and target: "target = \<lparr>x = x (cellOf b) + dx, y = y (cellOf b) + dy\<rparr>"
      "\<not> outOfBounds lv target" "\<not> isWall c target"
    and crate: "i < length (crateSprites c)" "cellOf (crateSprites c ! i) = target"
      "\<forall>j<i. cellOf (crateSprites c ! j) \<noteq> target"
    and crateTarget: "crateTarget = \<lparr>x = x target + dx, y = y target + dy\<rparr>"
      "\<not> outOfBounds lv crateTarget" "\<not> isWall c crateTarget"
      "\<forall>j<length (crateSprites c). j \<noteq> i \<longrightarrow> cellOf (crateSprites c ! j) \<noteq> crateTarget"
  shows "handleMovement key c =
    (Moved,
     c\<lparr>crateSprites := (crateSprites c)[i := startMoveTo crateTarget (crateSprites c ! i)],
       lastMove := Some \<lparr>bulldozerPos = cellOf b, bulldozerDirection = dir,
                         cratePos = Some target, crateIndex = Some i\<rparr>,
       bulldozerSprite := Some (startMoveTo target (b\<lparr>direction := dir\<rparr>)),
       moveCount := moveCount c + 1\<rparr>)"
proof -
  have hm: "handleMovement key c = attemptMove lv b dir dx dy c"
    using ready key by (rule handleMovement_accepted)
  have found: "crateAtTarget target (crateSprites c) = Some (i, crateSprites c ! i)"
    using crate by (simp add: crateAtTarget_Some)
  have free: "anotherCrate i crateTarget (crateSprites c) = None"
    using crateTarget(4) by (simp add: anotherCrate_None)
  show ?thesis
    unfolding hm attemptMove_push[OF target found crateTarget(1,2,3) free, of dir]
    by (simp add: crate(2))
qed

lemma scenarioStart_eq:
  "scenarioStart ws =
     \<lparr>level = Some (scenarioLevel ws),
      bulldozerSprite = Some (new_BulldozerSprite \<lparr>x = 1, y = 1\<rparr> Down),
      crateSprites = [new_CrateSprite \<lparr>x = 2, y = 1\<rparr> (Some ''#FF0000'')],
      isLevelComplete = False, moveCount = 0, lastMove = None\<rparr>"
  by (simp add: scenarioStart_def loadLevel_def initializeLevel_def new_LevelComponent_def
        scenarioLevel_def)

lemma keySwitch_simps [simp]:
  "keySwitch ''ArrowUp'' = Some (Up, 0, - 1)"
  "keySwitch ''ArrowDown'' = Some (Down, 0, 1)"
  "keySwitch ''ArrowLeft'' = Some (Left, - 1, 0)"
  "keySwitch ''ArrowRight'' = Some (Right, 1, 0)"
  by (simp_all add: keySwitch_def)

text \<open>
  C1. In a state where a move is accepted (level and bulldozer present, level not complete,
  no animation running), take an arrow key whose target cell is in bounds, is no wall and
  holds a crate (crate \<open>i\<close>, the first one standing there), the next cell in the direction
  of the move being in bounds, no wall and free of other crates. The outcome is \<open>Moved\<close>.
  Whatever animation frames follow, every other crate sprite is as it was; when crate \<open>i\<close>
  has come to rest it stands exactly one cell further in the direction of the move, and
  when the bulldozer has come to rest it stands on the cell the crate has left. Both are at
  rest there after any frames that end with one of at least the move duration.
\<close>

theorem push_relocates_one_crate:
  assumes "level c = Some lv" "bulldozerSprite c = Some b" "\<not> isLevelComplete c"
      "\<not> isAnimating b" "\<not> list_ex isAnimating (crateSprites c)"
    and "keySwitch key = Some (dir, dx, dy)"
    and "target = \<lparr>x = x (cellOf b) + dx, y = y (cellOf b) + dy\<rparr>"
      "\<not> outOfBounds lv target" "\<not> isWall c target"
    and "i < length (crateSprites c)" "cellOf (crateSprites c ! i) = target"
      "\<forall>j<i. cellOf (crateSprites c ! j) \<noteq> target"
    and "crateTarget = \<lparr>x = x target + dx, y = y target + dy\<rparr>"
      "\<not> outOfBounds lv crateTarget" "\<not> isWall c crateTarget"
      "\<forall>j<length (crateSprites c). j \<noteq> i \<longrightarrow> cellOf (crateSprites c ! j) \<noteq> crateTarget"
  shows "fst (handleMovement key c) = Moved \<and>
     length (crateSprites (frames dts (snd (handleMovement key c)))) = length (crateSprites c) \<and>
     (\<forall>j<length (crateSprites c). j \<noteq> i \<longrightarrow>
        crateSprites (frames dts (snd (handleMovement key c))) ! j = crateSprites c ! j) \<and>
     (\<not> isMoving (crateSprites (frames dts (snd (handleMovement key c))) ! i) \<longrightarrow>
        position (crateSprites (frames dts (snd (handleMovement key c))) ! i) = crateTarget) \<and>
     (map_option isMoving (bulldozerSprite (frames dts (snd (handleMovement key c)))) = Some False \<longrightarrow>
        map_option position (bulldozerSprite (frames dts (snd (handleMovement key c)))) = Some target) \<and>
     ((\<forall>t\<in>set dts. 0 \<le> t) \<and> moveDuration \<le> dt \<longrightarrow>
        position (crateSprites (frames (dts @ [dt]) (snd (handleMovement key c))) ! i) = crateTarget \<and>
        \<not> isMoving (crateSprites (frames (dts @ [dt]) (snd (handleMovement key c))) ! i) \<and>
        map_option position (bulldozerSprite (frames (dts @ [dt]) (snd (handleMovement key c))))
          = Some target \<and>
        map_option isMoving (bulldozerSprite (frames (dts @ [dt]) (snd (handleMovement key c))))
          = Some False)"
proof -
  let ?cs = "crateSprites c"
  let ?c1 = "snd (handleMovement key c)"
  note hm = push_started[OF assms]
  have cs: "\<And>ts. crateSprites (frames ts ?c1)
        = map (fold update_sprite ts) (?cs[i := startMoveTo crateTarget (?cs ! i)])"
    by (simp add: hm frames_eq)
  have bs: "\<And>ts. bulldozerSprite (frames ts ?c1)
        = Some (fold update_sprite ts (startMoveTo target (b\<lparr>direction := dir\<rparr>)))"
    by (simp add: hm frames_eq)
  have i: "i < length ?cs" by (rule assms(10))
  have idle_i: "\<not> isMoving (?cs ! i)" using assms(5) i by (simp add: idle_nth)
  have idle_b: "\<not> isMoving (b\<lparr>direction := dir\<rparr>)" using assms(4) by (simp add: isAnimating_def)
  have 1: "fst (handleMovement key c) = Moved" by (simp add: hm)
  have 2: "length (crateSprites (frames dts ?c1)) = length ?cs" by (simp add: cs)
  have 3: "\<forall>j<length ?cs. j \<noteq> i \<longrightarrow> crateSprites (frames dts ?c1) ! j = ?cs ! j"
  proof (intro allI impI)
    fix j assume j: "j < length ?cs" "j \<noteq> i"
    then have "\<not> isMoving (?cs ! j)" using assms(5) by (simp add: idle_nth)
    then show "crateSprites (frames dts ?c1) ! j = ?cs ! j"
      using j by (simp add: cs fold_update_sprite_idle)
  qed
  have 4: "\<not> isMoving (crateSprites (frames dts ?c1) ! i) \<longrightarrow>
        position (crateSprites (frames dts ?c1) ! i) = crateTarget"
    using i rest_started[OF idle_i, of dts crateTarget] by (simp add: cs)
  have 5: "map_option isMoving (bulldozerSprite (frames dts ?c1)) = Some False \<longrightarrow>
        map_option position (bulldozerSprite (frames dts ?c1)) = Some target"
    using rest_started[OF idle_b, of dts target] by (simp add: bs)
  have 6: "(\<forall>t\<in>set dts. 0 \<le> t) \<and> moveDuration \<le> dt \<longrightarrow>
        position (crateSprites (frames (dts @ [dt]) ?c1) ! i) = crateTarget \<and>
        \<not> isMoving (crateSprites (frames (dts @ [dt]) ?c1) ! i) \<and>
        map_option position (bulldozerSprite (frames (dts @ [dt]) ?c1)) = Some target \<and>
        map_option isMoving (bulldozerSprite (frames (dts @ [dt]) ?c1)) = Some False"
  proof (intro impI, elim conjE)
    assume a: "\<forall>t\<in>set dts. 0 \<le> t" "moveDuration \<le> dt"
    note l = last_frame[OF a]
    show "position (crateSprites (frames (dts @ [dt]) ?c1) ! i) = crateTarget \<and>
        \<not> isMoving (crateSprites (frames (dts @ [dt]) ?c1) ! i) \<and>
        map_option position (bulldozerSprite (frames (dts @ [dt]) ?c1)) = Some target \<and>
        map_option isMoving (bulldozerSprite (frames (dts @ [dt]) ?c1)) = Some False"
    proof -
      have sc: "position (fold update_sprite (dts @ [dt]) (startMoveTo crateTarget (?cs ! i)))
            = crateTarget \<and>
          \<not> isMoving (fold update_sprite (dts @ [dt]) (startMoveTo crateTarget (?cs ! i)))"
        unfolding settle_started[OF idle_i l] by simp
      have sb: "position (fold update_sprite (dts @ [dt]) (startMoveTo target (b\<lparr>direction := dir\<rparr>)))
            = target \<and>
          \<not> isMoving (fold update_sprite (dts @ [dt]) (startMoveTo target (b\<lparr>direction := dir\<rparr>)))"
        unfolding settle_started[OF idle_b l] by simp
      show ?thesis using i sc sb by (simp add: cs bs del: fold_append)
    qed
  qed
  from 1 2 3 4 5 6 show ?thesis by blast
qed

theorem push_relocates_one_crate_witness:
  "fst (handleMovement ''ArrowRight'' (scenarioStart [])) = Moved \<and>
   cellOf (crateSprites (scenarioStart []) ! 0) = \<lparr>x = 2, y = 1\<rparr> \<and>
   moveDuration \<le> 250 \<and>
   position (crateSprites (frames [16, 16, 250] (snd (handleMovement ''ArrowRight'' (scenarioStart [])))) ! 0)
     = \<lparr>x = 3, y = 1\<rparr> \<and>
   map_option position (bulldozerSprite (frames [16, 16, 250] (snd (handleMovement ''ArrowRight'' (scenarioStart [])))))
     = Some \<lparr>x = 2, y = 1\<rparr>"
proof -
  let ?c = "scenarioStart []"
  let ?b = "new_BulldozerSprite \<lparr>x = 1, y = 1\<rparr> Down"
  have h1: "level ?c = Some (scenarioLevel [])" by (simp add: scenarioStart_eq)
  have h2: "bulldozerSprite ?c = Some ?b" by (simp add: scenarioStart_eq)
  have h3: "\<not> isLevelComplete ?c" by (simp add: scenarioStart_eq)
  have h4: "\<not> isAnimating ?b" by (simp add: isAnimating_def new_BulldozerSprite_def)
  have h5: "\<not> list_ex isAnimating (crateSprites ?c)"
    by (simp add: scenarioStart_eq isAnimating_def new_CrateSprite_def)
  have h6: "keySwitch ''ArrowRight'' = Some (Right, 1, 0)" by simp
  have h7: "\<lparr>x = 2, y = 1\<rparr> = \<lparr>x = x (cellOf ?b) + 1, y = y (cellOf ?b) + 0\<rparr>"
    by (simp add: cellOf_def new_BulldozerSprite_def)
  have h8: "\<not> outOfBounds (scenarioLevel []) \<lparr>x = 2, y = 1\<rparr>"
    by (simp add: outOfBounds_def scenarioLevel_def)
  have h9: "\<not> isWall ?c \<lparr>x = 2, y = 1\<rparr>"
    by (simp add: isWall_def scenarioStart_eq scenarioLevel_def)
  have h10: "0 < length (crateSprites ?c)" by (simp add: scenarioStart_eq)
  have h11: "cellOf (crateSprites ?c ! 0) = \<lparr>x = 2, y = 1\<rparr>"
    by (simp add: scenarioStart_eq cellOf_def new_CrateSprite_def)
  have h12: "\<forall>j<0::nat. cellOf (crateSprites ?c ! j) \<noteq> \<lparr>x = 2, y = 1\<rparr>" by simp
  have h13: "\<lparr>x = 3, y = 1\<rparr> = \<lparr>x = x \<lparr>x = 2, y = 1\<rparr> + 1, y = y \<lparr>x = 2, y = 1 :: rat\<rparr> + 0\<rparr>"
    by simp
  have h14: "\<not> outOfBounds (scenarioLevel []) \<lparr>x = 3, y = 1\<rparr>"
    by (simp add: outOfBounds_def scenarioLevel_def)
  have h15: "\<not> isWall ?c \<lparr>x = 3, y = 1\<rparr>"
    by (simp add: isWall_def scenarioStart_eq scenarioLevel_def)
  have h16: "\<forall>j<length (crateSprites ?c). j \<noteq> 0 \<longrightarrow> cellOf (crateSprites ?c ! j) \<noteq> \<lparr>x = 3, y = 1\<rparr>"
    by (simp add: scenarioStart_eq)
  have d: "moveDuration \<le> 250" by (simp add: moveDuration_def)
  from push_relocates_one_crate[OF h1 h2 h3 h4 h5 h6 h7 h8 h9 h10 h11 h12 h13 h14 h15 h16,
      of "[16, 16]" 250] d
  show ?thesis using h11 by simp
qed

lemma attemptMove_outcome:
  assumes "target = \<lparr>x = x (cellOf b) + dx, y = y (cellOf b) + dy\<rparr>"
    and "crateTarget = \<lparr>x = x target + dx, y = y target + dy\<rparr>"
  shows "fst (attemptMove lv b dir dx dy c) = Blocked \<longleftrightarrow>
     (outOfBounds lv target \<or> isWall c target \<or>
      (\<exists>i crate. crateAtTarget target (crateSprites c) = Some (i, crate) \<and>
         (outOfBounds lv crateTarget \<or> isWall c crateTarget \<or>
          anotherCrate i crateTarget (crateSprites c) \<noteq> None)))"
proof (cases "outOfBounds lv target \<or> isWall c target \<or>
      (\<exists>i crate. crateAtTarget target (crateSprites c) = Some (i, crate) \<and>
         (outOfBounds lv crateTarget \<or> isWall c crateTarget \<or>
          anotherCrate i crateTarget (crateSprites c) \<noteq> None))")
  case True
  from attemptMove_blocked[OF assms this] show ?thesis using True by simp
next
  case False
  show ?thesis
  proof (cases "crateAtTarget target (crateSprites c)")
    case None
    with False attemptMove_free[OF assms(1), of lv c dir] show ?thesis by simp
  next
    case (Some ic)
    obtain i crate where ic: "ic = (i, crate)" by (cases ic)
    from False have t: "\<not> outOfBounds lv target" "\<not> isWall c target" by simp_all
    from Some ic have f: "crateAtTarget target (crateSprites c) = Some (i, crate)" by simp
    from False f have "\<not> (outOfBounds lv crateTarget \<or> isWall c crateTarget \<or>
          anotherCrate i crateTarget (crateSprites c) \<noteq> None)" by blast
    then have n: "\<not> outOfBounds lv crateTarget" "\<not> isWall c crateTarget"
      "anotherCrate i crateTarget (crateSprites c) = None" by blast+
    from attemptMove_push[OF assms(1) t f assms(2) n, of dir] False
    show ?thesis by simp
  qed
qed

lemma isWall_cong: "level c' = level c \<Longrightarrow> isWall c' p = isWall c p"
  by (simp add: isWall_def)

lemma handleMovement_sameBoard:
  assumes "sameBoard c c'"
  shows "fst (handleMovement key c') = fst (handleMovement key c)"
proof (cases "fst (handleMovement key c) = Ignored")
  case True
  then show ?thesis using assms
    by (auto simp: handleMovement_def sameBoard_def isAnimating_def attemptMove_not_Ignored
          option_rel_Some1 option_rel_Some2
          split: option.splits if_splits)
next
  case False
  from handleMovement_not_Ignored[OF False] obtain lv b dir dx dy where
    g: "level c = Some lv" "bulldozerSprite c = Some b" "\<not> isLevelComplete c"
       "\<not> isAnimating b" "\<not> list_ex isAnimating (crateSprites c)"
       "keySwitch key = Some (dir, dx, dy)"
    and hm: "handleMovement key c = attemptMove lv b dir dx dy c"
    by blast
  from assms g obtain b' where
    g': "level c' = Some lv" "bulldozerSprite c' = Some b'" "\<not> isLevelComplete c'"
       "\<not> isAnimating b'" "\<not> list_ex isAnimating (crateSprites c')"
    and b': "position b' = position b" and cs: "crateSprites c' = crateSprites c"
    by (auto simp: sameBoard_def isAnimating_def option_rel_Some1)
  have hm': "handleMovement key c' = attemptMove lv b' dir dx dy c'"
    using g' g(6) by (rule handleMovement_accepted)
  have cell: "cellOf b' = cellOf b" using b' by (simp add: cellOf_def)
  have w: "\<And>p. isWall c' p = isWall c p" using g(1) g'(1) by (simp add: isWall_cong)
  have "fst (attemptMove lv b' dir dx dy c') = Blocked \<longleftrightarrow> fst (attemptMove lv b dir dx dy c) = Blocked"
    by (simp add: attemptMove_outcome[OF refl refl] cell w cs)
  then show ?thesis
    using attemptMove_not_Ignored[of lv b dir dx dy c] attemptMove_not_Ignored[of lv b' dir dx dy c']
    unfolding hm hm'
    by (cases "fst (attemptMove lv b' dir dx dy c')"; cases "fst (attemptMove lv b dir dx dy c)") simp_all
qed

lemma handleMovement_Blocked:
  assumes "fst (handleMovement key c) = Blocked"
  shows "\<exists>b dir dx dy. bulldozerSprite c = Some b \<and> keySwitch key = Some (dir, dx, dy) \<and>
           snd (handleMovement key c) = c\<lparr>bulldozerSprite := Some (b\<lparr>direction := dir\<rparr>)\<rparr>"
proof -
  from assms have "fst (handleMovement key c) \<noteq> Ignored" by simp
  from handleMovement_not_Ignored[OF this] obtain lv b dir dx dy where
    g: "bulldozerSprite c = Some b" "keySwitch key = Some (dir, dx, dy)"
    and hm: "handleMovement key c = attemptMove lv b dir dx dy c"
    by blast
  from assms attemptMove_Blocked[of lv b dir dx dy c] show ?thesis
    unfolding hm using g by simp
qed

lemma sameBoard_after_Blocked:
  assumes "fst (handleMovement key c) = Blocked"
  shows "sameBoard c (snd (handleMovement key c))"
  using handleMovement_Blocked[OF assms] by (auto simp: sameBoard_def)

lemma sameBoard_trans: "sameBoard a b \<Longrightarrow> sameBoard b c \<Longrightarrow> sameBoard a c"
  by (auto simp: sameBoard_def option_rel_Some1 elim!: option.rel_cases)

lemma sameBoard_refl: "sameBoard c c"
  by (simp add: sameBoard_def option.rel_refl)

text \<open>
  C2. In a state where a move is accepted, an arrow key gives the outcome \<open>Blocked\<close>
  exactly when the target cell is out of bounds or a wall, or holds a crate whose next
  cell is out of bounds, a wall or the cell of another crate; a blocked move sets the
  bulldozer's facing to the requested direction and changes nothing else: the bulldozer's
  position, every crate sprite, the move counter, the completion flag and the undo record
  are as before.
\<close>

theorem blocked_changes_only_facing:
  assumes "level c = Some lv" "bulldozerSprite c = Some b" "\<not> isLevelComplete c"
      "\<not> isAnimating b" "\<not> list_ex isAnimating (crateSprites c)"
    and "keySwitch key = Some (dir, dx, dy)"
    and "target = \<lparr>x = x (cellOf b) + dx, y = y (cellOf b) + dy\<rparr>"
    and "crateTarget = \<lparr>x = x target + dx, y = y target + dy\<rparr>"
  shows "(fst (handleMovement key c) = Blocked \<longleftrightarrow>
           (outOfBounds lv target \<or> isWall c target \<or>
            (\<exists>i crate. crateAtTarget target (crateSprites c) = Some (i, crate) \<and>
               (outOfBounds lv crateTarget \<or> isWall c crateTarget \<or>
                anotherCrate i crateTarget (crateSprites c) \<noteq> None)))) \<and>
         (fst (handleMovement key c) = Blocked \<longrightarrow>
            snd (handleMovement key c) = c\<lparr>bulldozerSprite := Some (b\<lparr>direction := dir\<rparr>)\<rparr>)"
proof -
  have hm: "handleMovement key c = attemptMove lv b dir dx dy c"
    using assms(1-6) by (rule handleMovement_accepted)
  show ?thesis
    unfolding hm using attemptMove_outcome[OF assms(7,8)] attemptMove_Blocked by blast
qed


theorem blocked_changes_only_facing_witness:
  "isWall (scenarioStart [\<lparr>x = 3, y = 1\<rparr>]) \<lparr>x = 3, y = 1\<rparr> \<and>
   handleMovement ''ArrowRight'' (scenarioStart [\<lparr>x = 3, y = 1\<rparr>])
     = (Blocked, (scenarioStart [\<lparr>x = 3, y = 1\<rparr>])
                   \<lparr>bulldozerSprite := Some (new_BulldozerSprite \<lparr>x = 1, y = 1\<rparr> Right)\<rparr>)"
proof -
  let ?c = "scenarioStart [\<lparr>x = 3, y = 1\<rparr>]"
  let ?lv = "scenarioLevel [\<lparr>x = 3, y = 1\<rparr>]"
  let ?b = "new_BulldozerSprite \<lparr>x = 1, y = 1\<rparr> Down"
  let ?crate = "new_CrateSprite \<lparr>x = 2, y = 1\<rparr> (Some ''#FF0000'')"
  have h1: "level ?c = Some ?lv" by (simp add: scenarioStart_eq)
  have h2: "bulldozerSprite ?c = Some ?b" by (simp add: scenarioStart_eq)
  have h3: "\<not> isLevelComplete ?c" by (simp add: scenarioStart_eq)
  have h4: "\<not> isAnimating ?b" by (simp add: isAnimating_def new_BulldozerSprite_def)
  have h5: "\<not> list_ex isAnimating (crateSprites ?c)"
    by (simp add: scenarioStart_eq isAnimating_def new_CrateSprite_def)
  have h6: "keySwitch ''ArrowRight'' = Some (Right, 1, 0)" by simp
  have h7: "\<lparr>x = 2, y = 1\<rparr> = \<lparr>x = x (cellOf ?b) + 1, y = y (cellOf ?b) + 0\<rparr>"
    by (simp add: cellOf_def new_BulldozerSprite_def)
  have h8: "\<lparr>x = 3, y = 1\<rparr> = \<lparr>x = x \<lparr>x = 2, y = 1\<rparr> + 1, y = y \<lparr>x = 2, y = 1 :: rat\<rparr> + 0\<rparr>"
    by simp
  have crate: "crateAtTarget \<lparr>x = 2, y = 1\<rparr> (crateSprites ?c) = Some (0, ?crate)"
    by (simp add: crateAtTarget_def scenarioStart_eq new_CrateSprite_def enumerate_eq_zip)
  have wall: "isWall ?c \<lparr>x = 3, y = 1\<rparr>"
    by (simp add: isWall_def scenarioStart_eq scenarioLevel_def)
  have dir: "?b\<lparr>direction := Right\<rparr> = new_BulldozerSprite \<lparr>x = 1, y = 1\<rparr> Right"
    by (simp add: new_BulldozerSprite_def)
  from blocked_changes_only_facing[OF h1 h2 h3 h4 h5 h6 h7 h8] crate wall
  have "fst (handleMovement ''ArrowRight'' ?c) = Blocked \<and>
        snd (handleMovement ''ArrowRight'' ?c) = ?c\<lparr>bulldozerSprite := Some (?b\<lparr>direction := Right\<rparr>)\<rparr>"
    by blast
  then show ?thesis using wall by (simp add: dir prod_eq_iff)
qed

text \<open>
  C9. If a move attempt is \<open>Blocked\<close>, every repetition of the attempt with the same key
  is \<open>Blocked\<close> again and leaves the state as the first attempt left it; more generally
  the same key is \<open>Blocked\<close> in every state that shows the same board.
\<close>

theorem blocked_is_repeatable:
  assumes "fst (handleMovement key c) = Blocked"
  shows "(\<forall>n. fst (handleMovement key (((\<lambda>s. snd (handleMovement key s)) ^^ n) c)) = Blocked \<and>
              ((\<lambda>s. snd (handleMovement key s)) ^^ Suc n) c = snd (handleMovement key c)) \<and>
         (\<forall>c'. sameBoard c c' \<longrightarrow> fst (handleMovement key c') = Blocked)"
proof -
  let ?f = "\<lambda>s. snd (handleMovement key s)"
  have same: "\<And>c'. sameBoard c c' \<Longrightarrow> fst (handleMovement key c') = Blocked"
    using assms by (simp add: handleMovement_sameBoard)
  have idem: "?f (?f c) = ?f c"
  proof -
    from handleMovement_Blocked[OF assms] obtain b dir dx dy where
      b: "bulldozerSprite c = Some b" "keySwitch key = Some (dir, dx, dy)"
      and c1: "?f c = c\<lparr>bulldozerSprite := Some (b\<lparr>direction := dir\<rparr>)\<rparr>" by blast
    have "fst (handleMovement key (?f c)) = Blocked"
      by (rule same) (rule sameBoard_after_Blocked[OF assms])
    from handleMovement_Blocked[OF this] b c1 show ?thesis by auto
  qed
  have iter: "((?f ^^ Suc n) c) = ?f c" for n
    by (induction n) (simp_all add: idem)
  have "fst (handleMovement key ((?f ^^ n) c)) = Blocked" for n
  proof (cases n)
    case 0
    then show ?thesis using assms by simp
  next
    case (Suc m)
    have "sameBoard c (?f c)" by (rule sameBoard_after_Blocked[OF assms])
    then show ?thesis unfolding Suc iter by (rule same)
  qed
  with iter same show ?thesis by blast
qed

theorem blocked_is_repeatable_witness:
  "fst (handleMovement ''ArrowRight'' (scenarioStart [\<lparr>x = 3, y = 1\<rparr>])) = Blocked \<and>
   fst (handleMovement ''ArrowRight''
         (snd (handleMovement ''ArrowRight''
           (snd (handleMovement ''ArrowRight'' (scenarioStart [\<lparr>x = 3, y = 1\<rparr>])))))) = Blocked"
proof -
  let ?c = "scenarioStart [\<lparr>x = 3, y = 1\<rparr>]"
  have h: "fst (handleMovement ''ArrowRight'' ?c) = Blocked"
    by (simp add: handleMovement_def attemptMove_def Let_def scenarioStart_eq scenarioLevel_def
          isAnimating_def new_BulldozerSprite_def new_CrateSprite_def setDirection_def
          isWall_def crateAtTarget_def anotherCrate_def enumerate_eq_zip)
  from blocked_is_repeatable[OF h] have
    "fst (handleMovement ''ArrowRight''
       (((\<lambda>s. snd (handleMovement ''ArrowRight'' s)) ^^ Suc (Suc 0)) ?c)) = Blocked"
    by blast
  with h show ?thesis by simp
qed

text \<open>
  C10, as amended. Once the completion flag is set, \<open>handleMovement\<close> returns at once and
  changes nothing, whatever the key. \<open>undoLastMove\<close> is still accepted when no animation is
  running: with a record retained it puts the bulldozer back at the recorded position, puts
  the recorded crate (if any) back at its recorded position, clears the record, decrements
  the move counter (not below zero) and leaves the completion flag set. While the bulldozer
  or a crate is still moving, \<open>undoLastMove\<close> changes nothing either.
\<close>

theorem complete_level_ignores_moves_accepts_undo:
  assumes "isLevelComplete c"
  shows "handleMovement key c = (Ignored, c) \<and>
    (\<forall>lm b. lastMove c = Some lm \<and> bulldozerSprite c = Some b \<and> \<not> isAnimating b \<and>
        \<not> list_ex isAnimating (crateSprites c) \<longrightarrow>
      isLevelComplete (undoLastMove c) \<and>
      lastMove (undoLastMove c) = None \<and>
      bulldozerSprite (undoLastMove c)
        = Some (b\<lparr>position := bulldozerPos lm, direction := bulldozerDirection lm\<rparr>) \<and>
      moveCount (undoLastMove c) = (if 0 < moveCount c then moveCount c - 1 else moveCount c) \<and>
      length (crateSprites (undoLastMove c)) = length (crateSprites c) \<and>
      (\<forall>j<length (crateSprites c).
         crateSprites (undoLastMove c) ! j =
           (if crateIndex lm = Some j \<and> cratePos lm \<noteq> None
            then (crateSprites c ! j)\<lparr>position := the (cratePos lm)\<rparr>
            else crateSprites c ! j))) \<and>
    ((\<exists>b. bulldozerSprite c = Some b \<and> isAnimating b) \<or> list_ex isAnimating (crateSprites c)
       \<longrightarrow> undoLastMove c = c)"
proof -
  have "handleMovement key c = (Ignored, c)"
    using assms by (simp add: handleMovement_def split: option.splits)
  moreover have "isLevelComplete (undoLastMove c)"
    using assms by (simp add: undoLastMove_def split: option.splits)
  moreover have "(\<exists>b. bulldozerSprite c = Some b \<and> isAnimating b) \<or> list_ex isAnimating (crateSprites c)
       \<longrightarrow> undoLastMove c = c"
    by (auto simp: undoLastMove_def split: option.splits)
  ultimately show ?thesis
    by (auto simp: undoLastMove_def setDirection_def nth_list_update split: option.splits)
qed

section \<open>The scenario level\<close>

lemma scenario_right_open:
  "handleMovement ''ArrowRight'' (scenarioStart []) =
    (Moved,
     \<lparr>level = Some (scenarioLevel []),
      bulldozerSprite = Some \<lparr>position = \<lparr>x = 1, y = 1\<rparr>, isMoving = True, moveProgress = 0,
        moveStartPos = \<lparr>x = 1, y = 1\<rparr>, moveEndPos = \<lparr>x = 2, y = 1\<rparr>, direction = Right\<rparr>,
      crateSprites = [\<lparr>position = \<lparr>x = 2, y = 1\<rparr>, isMoving = True, moveProgress = 0,
        moveStartPos = \<lparr>x = 2, y = 1\<rparr>, moveEndPos = \<lparr>x = 3, y = 1\<rparr>, color = Some ''#FF0000''\<rparr>],
      isLevelComplete = False, moveCount = 1,
      lastMove = Some \<lparr>bulldozerPos = \<lparr>x = 1, y = 1\<rparr>, bulldozerDirection = Right,
        cratePos = Some \<lparr>x = 2, y = 1\<rparr>, crateIndex = Some 0\<rparr>\<rparr>)"
  by (simp add: handleMovement_def attemptMove_def Let_def scenarioStart_eq scenarioLevel_def
        isAnimating_def new_BulldozerSprite_def new_CrateSprite_def setDirection_def getDirection_def
        isWall_def crateAtTarget_def anotherCrate_def enumerate_eq_zip startMoveTo_def)

lemma settle_moving:
  assumes "\<forall>dt\<in>set dts. 0 \<le> dt" "moveDuration \<le> sum_list dts"
  shows "fold update_sprite dts
           (\<lparr>position = p, isMoving = True, moveProgress = 0, moveStartPos = a, moveEndPos = b, \<dots> = ext\<rparr>)
         = \<lparr>position = b, isMoving = False, moveProgress = 1, moveStartPos = a, moveEndPos = b, \<dots> = ext\<rparr>"
proof -
  have "1 \<le> (0::rat) + sum_list dts / moveDuration"
    using assms(2) by (simp add: moveDuration_def)
  with fold_update_sprite_done[of "\<lparr>position = p, isMoving = True, moveProgress = 0,
      moveStartPos = a, moveEndPos = b, \<dots> = ext\<rparr>" dts] assms(1)
  show ?thesis by simp
qed

lemma scenario_right_open_settled:
  assumes "\<forall>dt\<in>set dts. 0 \<le> dt" "moveDuration \<le> sum_list dts"
  shows "frames dts (snd (handleMovement ''ArrowRight'' (scenarioStart []))) =
     \<lparr>level = Some (scenarioLevel []),
      bulldozerSprite = Some \<lparr>position = \<lparr>x = 2, y = 1\<rparr>, isMoving = False, moveProgress = 1,
        moveStartPos = \<lparr>x = 1, y = 1\<rparr>, moveEndPos = \<lparr>x = 2, y = 1\<rparr>, direction = Right\<rparr>,
      crateSprites = [\<lparr>position = \<lparr>x = 3, y = 1\<rparr>, isMoving = False, moveProgress = 1,
        moveStartPos = \<lparr>x = 2, y = 1\<rparr>, moveEndPos = \<lparr>x = 3, y = 1\<rparr>, color = Some ''#FF0000''\<rparr>],
      isLevelComplete = False, moveCount = 1,
      lastMove = Some \<lparr>bulldozerPos = \<lparr>x = 1, y = 1\<rparr>, bulldozerDirection = Right,
        cratePos = Some \<lparr>x = 2, y = 1\<rparr>, crateIndex = Some 0\<rparr>\<rparr>"
  by (simp add: scenario_right_open frames_eq settle_moving[OF assms])

lemma frame_250: "\<forall>dt\<in>set [250 :: rat]. 0 \<le> dt" "moveDuration \<le> sum_list [250]"
  by (simp_all add: moveDuration_def)

lemma Math_round_292: "Math_round (73 / 25) = 3" "Math_round (48 / 25) = 2"
  by (simp_all add: Math_round_def floor_unique)

lemma scenario_right_open_160:
  "frames [160] (snd (handleMovement ''ArrowRight'' (scenarioStart []))) =
     \<lparr>level = Some (scenarioLevel []),
      bulldozerSprite = Some \<lparr>position = \<lparr>x = 48 / 25, y = 1\<rparr>, isMoving = True, moveProgress = 4 / 5,
        moveStartPos = \<lparr>x = 1, y = 1\<rparr>, moveEndPos = \<lparr>x = 2, y = 1\<rparr>, direction = Right\<rparr>,
      crateSprites = [\<lparr>position = \<lparr>x = 73 / 25, y = 1\<rparr>, isMoving = True, moveProgress = 4 / 5,
        moveStartPos = \<lparr>x = 2, y = 1\<rparr>, moveEndPos = \<lparr>x = 3, y = 1\<rparr>, color = Some ''#FF0000''\<rparr>],
      isLevelComplete = False, moveCount = 1,
      lastMove = Some \<lparr>bulldozerPos = \<lparr>x = 1, y = 1\<rparr>, bulldozerDirection = Right,
        cratePos = Some \<lparr>x = 2, y = 1\<rparr>, crateIndex = Some 0\<rparr>\<rparr>"
  by (simp add: scenario_right_open frames_def update_def update_sprite_def moveDuration_def
        easeInOutQuad_def Let_def)

text \<open>
  C6. In the level of width 4 and height 4 whose border is the edge of the grid (no cell of
  the grid is a wall), with the actor at (1,1) facing down, a crate at (2,1) coloured
  #FF0000 and a goal at (3,1) coloured #FF0000, the key ArrowRight is \<open>Moved\<close>; after any
  animation frames that end with one of at least the move duration the crate is at (3,1)
  and the actor at (2,1), every goal is filled, and the completion check sets the
  completion flag.
\<close>

theorem scenario_push_completes_on_open_grid:
  assumes "\<forall>t\<in>set dts. 0 \<le> t" "moveDuration \<le> dt"
  shows "fst (handleMovement ''ArrowRight'' (scenarioStart [])) = Moved \<and>
     map position (crateSprites (frames (dts @ [dt]) (snd (handleMovement ''ArrowRight'' (scenarioStart [])))))
       = [\<lparr>x = 3, y = 1\<rparr>] \<and>
     map_option position (bulldozerSprite (frames (dts @ [dt]) (snd (handleMovement ''ArrowRight'' (scenarioStart [])))))
       = Some \<lparr>x = 2, y = 1\<rparr> \<and>
     allEndPositionsFilled (scenarioLevel [])
       (crateSprites (frames (dts @ [dt]) (snd (handleMovement ''ArrowRight'' (scenarioStart []))))) \<and>
     isLevelComplete
       (checkLevelCompletion (frames (dts @ [dt]) (snd (handleMovement ''ArrowRight'' (scenarioStart [])))))"
  unfolding scenario_right_open_settled[OF last_frame[OF assms]]
  by (simp add: scenario_right_open allEndPositionsFilled_def checkLevelCompletion_def
        scenarioLevel_def getColor_def)

theorem scenario_push_completes_on_open_grid_witness:
  "moveDuration \<le> 250 \<and>
   map position (crateSprites (frames [16, 16, 250] (snd (handleMovement ''ArrowRight'' (scenarioStart [])))))
       = [\<lparr>x = 3, y = 1\<rparr>] \<and>
   map_option position (bulldozerSprite (frames [16, 16, 250] (snd (handleMovement ''ArrowRight'' (scenarioStart [])))))
       = Some \<lparr>x = 2, y = 1\<rparr> \<and>
   isLevelComplete
       (checkLevelCompletion (frames [16, 16, 250] (snd (handleMovement ''ArrowRight'' (scenarioStart [])))))"
  using scenario_push_completes_on_open_grid[of "[16, 16]" 250]
  by (simp add: moveDuration_def)

theorem complete_level_ignores_moves_accepts_undo_witness:
  "isLevelComplete (checkLevelCompletion (frames [250] (snd (handleMovement ''ArrowRight'' (scenarioStart []))))) \<and>
   handleMovement ''ArrowLeft''
       (checkLevelCompletion (frames [250] (snd (handleMovement ''ArrowRight'' (scenarioStart [])))))
     = (Ignored, checkLevelCompletion (frames [250] (snd (handleMovement ''ArrowRight'' (scenarioStart []))))) \<and>
   isLevelComplete (undoLastMove
       (checkLevelCompletion (frames [250] (snd (handleMovement ''ArrowRight'' (scenarioStart [])))))) \<and>
   map_option position (bulldozerSprite (undoLastMove
       (checkLevelCompletion (frames [250] (snd (handleMovement ''ArrowRight'' (scenarioStart [])))))))
     = Some \<lparr>x = 1, y = 1\<rparr> \<and>
   position (crateSprites (undoLastMove
       (checkLevelCompletion (frames [250] (snd (handleMovement ''ArrowRight'' (scenarioStart [])))))) ! 0)
     = \<lparr>x = 2, y = 1\<rparr> \<and>
   moveCount (undoLastMove
       (checkLevelCompletion (frames [250] (snd (handleMovement ''ArrowRight'' (scenarioStart [])))))) = 0"
proof -
  let ?s = "frames [250] (snd (handleMovement ''ArrowRight'' (scenarioStart [])))"
  let ?c = "checkLevelCompletion ?s"
  let ?lm = "\<lparr>bulldozerPos = \<lparr>x = 1, y = 1\<rparr>, bulldozerDirection = Right,
        cratePos = Some \<lparr>x = 2, y = 1\<rparr>, crateIndex = Some 0\<rparr>"
  let ?b = "\<lparr>position = \<lparr>x = 2, y = 1\<rparr>, isMoving = False, moveProgress = 1,
        moveStartPos = \<lparr>x = 1, y = 1\<rparr>, moveEndPos = \<lparr>x = 2, y = 1\<rparr>, direction = Right\<rparr>"
  let ?r = "\<lparr>level = Some (scenarioLevel []), bulldozerSprite = Some ?b,
      crateSprites = [\<lparr>position = \<lparr>x = 3, y = 1\<rparr>, isMoving = False, moveProgress = 1,
        moveStartPos = \<lparr>x = 2, y = 1\<rparr>, moveEndPos = \<lparr>x = 3, y = 1\<rparr>, color = Some ''#FF0000''\<rparr>],
      isLevelComplete = False, moveCount = 1, lastMove = Some ?lm\<rparr>"
  have s: "?s = ?r" by (rule scenario_right_open_settled[OF frame_250])
  have c: "checkLevelCompletion ?r = ?r\<lparr>isLevelComplete := True\<rparr>"
    by (simp add: allEndPositionsFilled_def checkLevelCompletion_def scenarioLevel_def getColor_def)
  have fin: "isLevelComplete ?c" unfolding s c by simp
  have pre: "lastMove ?c = Some ?lm \<and> bulldozerSprite ?c = Some ?b \<and> \<not> isAnimating ?b \<and>
        \<not> list_ex isAnimating (crateSprites ?c)"
    unfolding s c by (simp add: isAnimating_def)
  have len: "0 < length (crateSprites ?c)" unfolding s c by simp
  note t = complete_level_ignores_moves_accepts_undo[OF fin, of "''ArrowLeft''"]
  from t have 1: "handleMovement ''ArrowLeft'' ?c = (Ignored, ?c)" by (rule conjunct1)
  from t[THEN conjunct2, THEN conjunct1, rule_format, OF pre] len
  have 2: "isLevelComplete (undoLastMove ?c)"
    "bulldozerSprite (undoLastMove ?c)
       = Some (?b\<lparr>position := bulldozerPos ?lm, direction := bulldozerDirection ?lm\<rparr>)"
    "moveCount (undoLastMove ?c) = (if 0 < moveCount ?c then moveCount ?c - 1 else moveCount ?c)"
    "crateSprites (undoLastMove ?c) ! 0 =
       (if crateIndex ?lm = Some 0 \<and> cratePos ?lm \<noteq> None
        then (crateSprites ?c ! 0)\<lparr>position := the (cratePos ?lm)\<rparr> else crateSprites ?c ! 0)"
    by blast+
  have mc: "moveCount ?c = 1" "position (crateSprites ?c ! 0) = \<lparr>x = 3, y = 1\<rparr>"
    unfolding s c by simp_all
  show ?thesis using fin 1 by (simp add: 2 mc)
qed

text \<open>
  C10, as stated. On the open scenario level the push to the right is followed by one frame
  of 160 ms and then by the completion check: the crate, four fifths of its way, already
  rounds to the goal's cell, and the flag is set while both sprites are still moving. The
  undo record of the push is retained, yet \<open>undoLastMove\<close> returns the state as it is: no
  position is restored and the move counter stays at 1.
\<close>

theorem undo_ignored_while_the_completing_push_animates:
  "isLevelComplete
     (checkLevelCompletion (frames [160] (snd (handleMovement ''ArrowRight'' (scenarioStart []))))) \<and>
   lastMove
     (checkLevelCompletion (frames [160] (snd (handleMovement ''ArrowRight'' (scenarioStart [])))))
     = Some \<lparr>bulldozerPos = \<lparr>x = 1, y = 1\<rparr>, bulldozerDirection = Right,
        cratePos = Some \<lparr>x = 2, y = 1\<rparr>, crateIndex = Some 0\<rparr> \<and>
   list_ex isAnimating (crateSprites
     (checkLevelCompletion (frames [160] (snd (handleMovement ''ArrowRight'' (scenarioStart [])))))) \<and>
   map cellOf (crateSprites
     (checkLevelCompletion (frames [160] (snd (handleMovement ''ArrowRight'' (scenarioStart []))))))
     = [\<lparr>x = 3, y = 1\<rparr>] \<and>
   moveCount
     (checkLevelCompletion (frames [160] (snd (handleMovement ''ArrowRight'' (scenarioStart [])))))
     = 1 \<and>
   undoLastMove
     (checkLevelCompletion (frames [160] (snd (handleMovement ''ArrowRight'' (scenarioStart [])))))
     = checkLevelCompletion (frames [160] (snd (handleMovement ''ArrowRight'' (scenarioStart []))))"
  unfolding scenario_right_open_160
  by (simp add: checkLevelCompletion_def allEndPositionsFilled_def scenarioLevel_def getColor_def
        Math_round_292 cellOf_def undoLastMove_def isAnimating_def)

text \<open>
  C4. The actor starts at (1,1) facing down and moves up on the open scenario level. After
  the animation, \<open>undoLastMove\<close> puts it back at (1,1), but facing up: \<open>handleMovement\<close>
  reads \<open>previousBulldozerDirection\<close> after \<open>setDirection\<close>, so the record holds the
  direction of the move and not the facing before it.
\<close>

theorem undo_restores_the_facing_of_the_move:
  "map_option direction (bulldozerSprite (scenarioStart [])) = Some Down \<and>
   fst (handleMovement ''ArrowUp'' (scenarioStart [])) = Moved \<and>
   map_option position (bulldozerSprite (frames [250] (snd (handleMovement ''ArrowUp'' (scenarioStart [])))))
     = Some \<lparr>x = 1, y = 0\<rparr> \<and>
   map_option position
     (bulldozerSprite (undoLastMove (frames [250] (snd (handleMovement ''ArrowUp'' (scenarioStart []))))))
     = Some \<lparr>x = 1, y = 1\<rparr> \<and>
   map_option direction
     (bulldozerSprite (undoLastMove (frames [250] (snd (handleMovement ''ArrowUp'' (scenarioStart []))))))
     = Some Up"
  by (simp add: handleMovement_def attemptMove_def Let_def
        scenarioStart_eq scenarioLevel_def
        isAnimating_def new_BulldozerSprite_def new_CrateSprite_def setDirection_def getDirection_def
        isWall_def crateAtTarget_def anotherCrate_def enumerate_eq_zip startMoveTo_def
        frames_def update_def update_sprite_def moveDuration_def undoLastMove_def)

section \<open>Completion and loading\<close>

text \<open>The test of one goal inside \<open>allEndPositionsFilled\<close>.\<close>

lemma allEndPositionsFilled_iff:
  "allEndPositionsFilled lv sprites \<longleftrightarrow>
     (\<forall>goal\<in>set (endPositions lv).
        \<exists>crate. List.find (\<lambda>sprite. cellOf sprite = EndPosition.position goal) sprites = Some crate \<and>
          getColor crate = Some (EndPosition.color goal))"
  unfolding allEndPositionsFilled_def list_all_iff cellOf_eq_iff
  by (auto split: option.splits)

lemma distinct_cells_eq:
  "distinct (map cellOf sprites) \<Longrightarrow> a \<in> set sprites \<Longrightarrow> b \<in> set sprites \<Longrightarrow>
   cellOf a = cellOf b \<Longrightarrow> a = b"
  by (auto simp: distinct_map inj_on_def)

lemma find_cell_distinct:
  assumes "distinct (map cellOf sprites)"
  shows "List.find (\<lambda>sprite. cellOf sprite = p) sprites = Some crate \<longleftrightarrow>
           crate \<in> set sprites \<and> cellOf crate = p"
proof
  assume "List.find (\<lambda>sprite. cellOf sprite = p) sprites = Some crate"
  then show "crate \<in> set sprites \<and> cellOf crate = p"
    by (auto simp: find_Some_iff)
next
  assume c: "crate \<in> set sprites \<and> cellOf crate = p"
  then have "List.find (\<lambda>sprite. cellOf sprite = p) sprites \<noteq> None"
    by (auto simp: find_None_iff)
  then obtain c' where f: "List.find (\<lambda>sprite. cellOf sprite = p) sprites = Some c'" by blast
  then have "c' \<in> set sprites" "cellOf c' = p" by (auto simp: find_Some_iff)
  with c assms have "c' = crate" by (auto intro: distinct_cells_eq)
  with f show "List.find (\<lambda>sprite. cellOf sprite = p) sprites = Some crate" by simp
qed

lemma filled_distinct:
  assumes "distinct (map cellOf sprites)"
  shows "allEndPositionsFilled lv sprites \<longleftrightarrow>
     (\<forall>goal\<in>set (endPositions lv). \<exists>crate\<in>set sprites.
        cellOf crate = EndPosition.position goal \<and> getColor crate = Some (EndPosition.color goal))"
  unfolding allEndPositionsFilled_iff find_cell_distinct[OF assms] by blast

lemma distinct_cells_remove:
  assumes "distinct (map cellOf sprites)" "i < length sprites"
  shows "distinct (map cellOf (take i sprites @ drop (Suc i) sprites))"
    and "\<forall>crate\<in>set (take i sprites @ drop (Suc i) sprites). cellOf crate \<noteq> cellOf (sprites ! i)"
proof -
  have "sprites = take i sprites @ sprites ! i # drop (Suc i) sprites"
    using assms(2) by (rule id_take_nth_drop)
  then have "map cellOf sprites =
      map cellOf (take i sprites) @ cellOf (sprites ! i) # map cellOf (drop (Suc i) sprites)"
    by (metis list.simps(9) map_append)
  with assms(1) have d: "distinct (map cellOf (take i sprites) @ cellOf (sprites ! i) #
      map cellOf (drop (Suc i) sprites))" by simp
  from d show "distinct (map cellOf (take i sprites @ drop (Suc i) sprites))" by auto
  from d have "cellOf (sprites ! i) \<notin> cellOf ` set (take i sprites @ drop (Suc i) sprites)"
    by auto
  then show "\<forall>crate\<in>set (take i sprites @ drop (Suc i) sprites). cellOf crate \<noteq> cellOf (sprites ! i)"
    by (metis image_eqI)
qed

lemma cells_recolor:
  "map cellOf (sprites[i := (sprites ! i)\<lparr>color := col\<rparr>]) = map cellOf sprites"
proof (cases "i < length sprites")
  case True
  have "map cellOf (sprites[i := (sprites ! i)\<lparr>color := col\<rparr>])
          = (map cellOf sprites)[i := cellOf ((sprites ! i)\<lparr>color := col\<rparr>)]"
    by (rule map_update)
  also have "cellOf ((sprites ! i)\<lparr>color := col\<rparr>) = map cellOf sprites ! i"
    using True by (simp add: cellOf_def)
  finally show ?thesis by simp
next
  case False
  then have "length sprites \<le> i" by simp
  then show ?thesis by (simp only: list_update_beyond)
qed

text \<open>
  C3, as amended. In a state whose crates stand on pairwise distinct cells, the completion
  check holds exactly when every goal has a crate on its cell with the goal's colour; a
  neutral crate on a goal's cell makes the check fail; and when a crate satisfies a goal,
  the check fails once that crate is removed or given another colour.
\<close>

theorem completion_iff_goals_matched:
  assumes "distinct (map cellOf sprites)"
  shows "(allEndPositionsFilled lv sprites \<longleftrightarrow>
            (\<forall>goal\<in>set (endPositions lv). \<exists>crate\<in>set sprites.
               cellOf crate = EndPosition.position goal \<and>
               getColor crate = Some (EndPosition.color goal))) \<and>
         (\<forall>goal\<in>set (endPositions lv). \<forall>crate\<in>set sprites.
            cellOf crate = EndPosition.position goal \<and> getColor crate = None \<longrightarrow>
            \<not> allEndPositionsFilled lv sprites) \<and>
         (\<forall>goal\<in>set (endPositions lv). \<forall>i<length sprites.
            cellOf (sprites ! i) = EndPosition.position goal \<and>
            getColor (sprites ! i) = Some (EndPosition.color goal) \<longrightarrow>
            \<not> allEndPositionsFilled lv (take i sprites @ drop (Suc i) sprites) \<and>
            (\<forall>col. col \<noteq> Some (EndPosition.color goal) \<longrightarrow>
               \<not> allEndPositionsFilled lv (sprites[i := (sprites ! i)\<lparr>color := col\<rparr>])))"
proof (intro conjI ballI allI impI)
  show "allEndPositionsFilled lv sprites \<longleftrightarrow>
            (\<forall>goal\<in>set (endPositions lv). \<exists>crate\<in>set sprites.
               cellOf crate = EndPosition.position goal \<and>
               getColor crate = Some (EndPosition.color goal))"
    by (rule filled_distinct[OF assms])
next
  fix goal crate
  assume g: "goal \<in> set (endPositions lv)" and c: "crate \<in> set sprites"
    and n: "cellOf crate = EndPosition.position goal \<and> getColor crate = None"
  show "\<not> allEndPositionsFilled lv sprites"
  proof
    assume "allEndPositionsFilled lv sprites"
    with g obtain c' where "c' \<in> set sprites" "cellOf c' = EndPosition.position goal"
      "getColor c' = Some (EndPosition.color goal)"
      unfolding filled_distinct[OF assms] by blast
    with c n assms have "c' = crate" by (auto intro: distinct_cells_eq)
    with n \<open>getColor c' = Some (EndPosition.color goal)\<close> show False by simp
  qed
next
  fix goal i
  assume g: "goal \<in> set (endPositions lv)" and i: "i < length sprites"
    and m: "cellOf (sprites ! i) = EndPosition.position goal \<and>
            getColor (sprites ! i) = Some (EndPosition.color goal)"
  show "\<not> allEndPositionsFilled lv (take i sprites @ drop (Suc i) sprites)"
    unfolding filled_distinct[OF distinct_cells_remove(1)[OF assms i]]
    using distinct_cells_remove(2)[OF assms i] g m by metis
next
  fix goal i col
  assume g: "goal \<in> set (endPositions lv)" and i: "i < length sprites"
    and m: "cellOf (sprites ! i) = EndPosition.position goal \<and>
            getColor (sprites ! i) = Some (EndPosition.color goal)"
    and col: "col \<noteq> Some (EndPosition.color goal)"
  let ?s' = "sprites[i := (sprites ! i)\<lparr>color := col\<rparr>]"
  have d': "distinct (map cellOf ?s')" using assms by (simp add: cells_recolor)
  show "\<not> allEndPositionsFilled lv ?s'"
  proof
    assume "allEndPositionsFilled lv ?s'"
    with g obtain c' where c': "c' \<in> set ?s'" "cellOf c' = EndPosition.position goal"
      "getColor c' = Some (EndPosition.color goal)"
      unfolding filled_distinct[OF d'] by blast
    have "?s' ! i \<in> set ?s'" using i by (simp add: set_update_memI)
    moreover have "cellOf (?s' ! i) = cellOf c'" using i m c'(2) by (simp add: cellOf_def)
    ultimately have "c' = ?s' ! i" using d' c'(1) by (auto intro: distinct_cells_eq)
    with c'(3) col i show False by (simp add: getColor_def)
  qed
qed


theorem completion_iff_goals_matched_witness:
  "distinct (map cellOf [new_CrateSprite \<lparr>x = 3, y = 1\<rparr> (Some ''#FF0000'')]) \<and>
   allEndPositionsFilled (scenarioLevel []) [new_CrateSprite \<lparr>x = 3, y = 1\<rparr> (Some ''#FF0000'')] \<and>
   \<not> allEndPositionsFilled (scenarioLevel [])
       (take 0 [new_CrateSprite \<lparr>x = 3, y = 1\<rparr> (Some ''#FF0000'')]
        @ drop (Suc 0) [new_CrateSprite \<lparr>x = 3, y = 1\<rparr> (Some ''#FF0000'')]) \<and>
   \<not> allEndPositionsFilled (scenarioLevel [])
       ([new_CrateSprite \<lparr>x = 3, y = 1\<rparr> (Some ''#FF0000'')]
          [0 := ([new_CrateSprite \<lparr>x = 3, y = 1\<rparr> (Some ''#FF0000'')] ! 0)\<lparr>color := None\<rparr>])"
proof -
  let ?S = "[new_CrateSprite \<lparr>x = 3, y = 1\<rparr> (Some ''#FF0000'')]"
  let ?g = "\<lparr>EndPosition.position = \<lparr>x = 3, y = 1\<rparr>, EndPosition.color = ''#FF0000''\<rparr>"
  have d: "distinct (map cellOf ?S)" by simp
  have g: "?g \<in> set (endPositions (scenarioLevel []))" by (simp add: scenarioLevel_def)
  have m: "cellOf (?S ! 0) = EndPosition.position ?g \<and> getColor (?S ! 0) = Some (EndPosition.color ?g)"
    by (simp add: cellOf_def new_CrateSprite_def getColor_def)
  have i: "0 < length ?S" by simp
  note t = completion_iff_goals_matched[OF d, of "scenarioLevel []"]
  have "\<forall>goal\<in>set (endPositions (scenarioLevel [])). \<exists>crate\<in>set ?S.
          cellOf crate = EndPosition.position goal \<and> getColor crate = Some (EndPosition.color goal)"
    by (simp add: scenarioLevel_def cellOf_def new_CrateSprite_def getColor_def)
  with t have 1: "allEndPositionsFilled (scenarioLevel []) ?S" by blast
  from t g i m have 2: "\<not> allEndPositionsFilled (scenarioLevel []) (take 0 ?S @ drop (Suc 0) ?S)"
    by blast
  have "None \<noteq> Some (EndPosition.color ?g)" by simp
  with t g i m have 3: "\<not> allEndPositionsFilled (scenarioLevel []) (?S[0 := (?S ! 0)\<lparr>color := None\<rparr>])"
    by blast
  from d 1 2 3 show ?thesis by blast
qed

text \<open>
  C3, as stated. The validator accepts \<open>overlapLevel\<close>. Loaded, its second crate stands on
  the goal's cell with the goal's colour, so every goal has a matching crate; the check is
  false all the same, because \<open>find\<close> returns the neutral crate that comes first on that
  cell.
\<close>

theorem completion_misses_second_crate_on_cell:
  "validateLevel overlapLevel = Inr True \<and>
   endPositions overlapLevel
     = [\<lparr>EndPosition.position = \<lparr>x = 3, y = 1\<rparr>, EndPosition.color = ''#FF0000''\<rparr>] \<and>
   cellOf (crateSprites (loadLevel (Some overlapLevel) new_LevelComponent) ! 1) = \<lparr>x = 3, y = 1\<rparr> \<and>
   getColor (crateSprites (loadLevel (Some overlapLevel) new_LevelComponent) ! 1) = Some ''#FF0000'' \<and>
   \<not> allEndPositionsFilled overlapLevel (crateSprites (loadLevel (Some overlapLevel) new_LevelComponent))"
  by (simp add: overlapLevel_def scenarioLevel_def validateLevel_def validateCandidate_def
        candidate_def candidatePosition_def js_gt_def js_ge_def coloredCrates_def
        crateColors_def endPositionColors_def validatePosition_def
        loadLevel_def initializeLevel_def new_LevelComponent_def new_CrateSprite_def
        cellOf_def getColor_def allEndPositionsFilled_def)




section \<open>Crates stay apart within a level\<close>

lemma easeInOutQuad_bounds:
  assumes "0 \<le> p" "p < 1"
  shows "0 \<le> easeInOutQuad p \<and> easeInOutQuad p \<le> 1"
proof (cases "p < 1 / 2")
  case True
  have "p * p \<le> (1 / 2) * (1 / 2)"
    using assms True by (intro mult_mono) simp_all
  moreover have "0 \<le> p * p" by simp
  ultimately show ?thesis using True by (simp add: easeInOutQuad_def)
next
  case False
  define q where "q = 1 - p"
  have q: "0 \<le> q" "q \<le> 1 / 2" using assms False by (simp_all add: q_def)
  have e: "easeInOutQuad p = 1 - 2 * (q * q)"
    using False by (simp add: easeInOutQuad_def q_def algebra_simps)
  have "q * q \<le> (1 / 2) * (1 / 2)" using q by (intro mult_mono) simp_all
  moreover have "0 \<le> q * q" by simp
  ultimately show ?thesis unfolding e by simp
qed

lemma interpolate_between:
  assumes "0 \<le> t" "t \<le> (1::rat)"
  shows "min a b \<le> a + (b - a) * t \<and> a + (b - a) * t \<le> max a b"
proof -
  have eq: "a + (b - a) * t = (1 - t) * a + t * b" by (simp add: algebra_simps)
  have 1: "(1 - t) * a \<le> (1 - t) * max a b" "t * b \<le> t * max a b"
    using assms by (auto intro!: mult_left_mono)
  have 2: "(1 - t) * min a b \<le> (1 - t) * a" "t * min a b \<le> t * b"
    using assms by (auto intro!: mult_left_mono)
  have "(1 - t) * max a b + t * max a b = max a b" by (simp add: algebra_simps)
  moreover have "(1 - t) * min a b + t * min a b = min a b" by (simp add: algebra_simps)
  ultimately show ?thesis unfolding eq using 1 2 by linarith
qed

lemma round_between:
  assumes "min a b \<le> v" "v \<le> max a b"
    and "Math_round b = Math_round a \<or> Math_round b = Math_round a + 1 \<or>
         Math_round b = Math_round a - 1"
  shows "Math_round v = Math_round a \<or> Math_round v = Math_round b"
proof -
  define na nb nv where "na = \<lfloor>a + 1 / 2\<rfloor>" and "nb = \<lfloor>b + 1 / 2\<rfloor>" and "nv = \<lfloor>v + 1 / 2\<rfloor>"
  have R: "Math_round a = of_int na" "Math_round b = of_int nb" "Math_round v = of_int nv"
    by (simp_all add: Math_round_def na_def nb_def nv_def)
  have lo: "min na nb \<le> nv"
  proof (cases "a \<le> b")
    case True
    with assms(1) have "a + 1 / 2 \<le> v + 1 / 2" by simp
    then have "na \<le> nv" unfolding na_def nv_def by (rule floor_mono)
    then show ?thesis by simp
  next
    case False
    with assms(1) have "b + 1 / 2 \<le> v + 1 / 2" by simp
    then have "nb \<le> nv" unfolding nb_def nv_def by (rule floor_mono)
    then show ?thesis by simp
  qed
  have hi: "nv \<le> max na nb"
  proof (cases "a \<le> b")
    case True
    with assms(2) have "v + 1 / 2 \<le> b + 1 / 2" by simp
    then have "nv \<le> nb" unfolding nb_def nv_def by (rule floor_mono)
    then show ?thesis by simp
  next
    case False
    with assms(2) have "v + 1 / 2 \<le> a + 1 / 2" by simp
    then have "nv \<le> na" unfolding na_def nv_def by (rule floor_mono)
    then show ?thesis by simp
  qed
  have "rat_of_int nb = of_int na \<or> rat_of_int nb = of_int (na + 1) \<or> rat_of_int nb = of_int (na - 1)"
    using assms(3) unfolding R by simp
  then have "nb = na \<or> nb = na + 1 \<or> nb = na - 1"
    by (simp only: of_int_eq_iff)
  with lo hi have "nv = na \<or> nv = nb" by linarith
  then show ?thesis unfolding R by (simp only: of_int_eq_iff)
qed

lemma update_sprite_idle [simp]: "\<not> isMoving s \<Longrightarrow> update_sprite dt s = s"
  by (simp add: update_sprite_def)

lemma update_sprite_ends [simp]:
  "moveStartPos (update_sprite dt s) = moveStartPos s"
  "moveEndPos (update_sprite dt s) = moveEndPos s"
  by (simp_all add: update_sprite_def Let_def)

lemma update_sprite_still_moving:
  "isMoving (update_sprite dt s) \<Longrightarrow>
     isMoving s \<and> moveProgress (update_sprite dt s) = moveProgress s + dt / moveDuration"
  by (auto simp: update_sprite_def Let_def split: if_splits)

lemma update_sprite_cell:
  assumes "isMoving s" "0 \<le> moveProgress s" "0 \<le> dt"
    and "adjacentCells (moveStartPos s) (moveEndPos s)"
  shows "cellOf (update_sprite dt s) = cellAt (moveStartPos s) \<or>
         cellOf (update_sprite dt s) = cellAt (moveEndPos s)"
proof -
  let ?p = "moveProgress s + dt / moveDuration"
  show ?thesis
  proof (cases "1 \<le> ?p")
    case True
    then show ?thesis using assms(1) by (simp add: update_sprite_def cellOf_def cellAt_def)
  next
    case False
    have p0: "0 \<le> ?p" using assms(2,3) by (simp add: moveDuration_def)
    from easeInOutQuad_bounds[OF p0] False
    have t: "0 \<le> easeInOutQuad ?p" "easeInOutQuad ?p \<le> 1" by simp_all
    let ?a = "moveStartPos s" and ?b = "moveEndPos s" and ?t = "easeInOutQuad ?p"
    let ?vx = "x ?a + (x ?b - x ?a) * ?t" and ?vy = "y ?a + (y ?b - y ?a) * ?t"
    have pos: "cellOf (update_sprite dt s) = \<lparr>x = Math_round ?vx, y = Math_round ?vy\<rparr>"
      using assms(1) False by (simp add: update_sprite_def Let_def cellOf_def)
    note bx = interpolate_between[OF t, of "x ?a" "x ?b"]
    note by' = interpolate_between[OF t, of "y ?a" "y ?b"]
    from assms(4) consider
        (vert) "Math_round (x ?b) = Math_round (x ?a)"
          "Math_round (y ?b) = Math_round (y ?a) + 1 \<or> Math_round (y ?b) = Math_round (y ?a) - 1"
      | (horiz) "Math_round (y ?b) = Math_round (y ?a)"
          "Math_round (x ?b) = Math_round (x ?a) + 1 \<or> Math_round (x ?b) = Math_round (x ?a) - 1"
      unfolding adjacentCells_def by blast
    then show ?thesis
    proof cases
      case vert
      have "Math_round ?vx = Math_round (x ?a) \<or> Math_round ?vx = Math_round (x ?b)"
        using bx vert(1) by (intro round_between) simp_all
      then have X: "Math_round ?vx = Math_round (x ?a)" using vert(1) by auto
      have "Math_round ?vy = Math_round (y ?a) \<or> Math_round ?vy = Math_round (y ?b)"
        using by' vert(2) by (intro round_between) auto
      then show ?thesis unfolding pos cellAt_def using X vert(1) by auto
    next
      case horiz
      have "Math_round ?vy = Math_round (y ?a) \<or> Math_round ?vy = Math_round (y ?b)"
        using by' horiz(1) by (intro round_between) simp_all
      then have Y: "Math_round ?vy = Math_round (y ?a)" using horiz(1) by auto
      have "Math_round ?vx = Math_round (x ?a) \<or> Math_round ?vx = Math_round (x ?b)"
        using bx horiz(2) by (intro round_between) auto
      then show ?thesis unfolding pos cellAt_def using Y horiz(1) by auto
    qed
  qed
qed


lemma attemptMove_cases:
  fixes lv b dir dx dy c
  defines "target \<equiv> \<lparr>x = x (cellOf b) + dx, y = y (cellOf b) + dy\<rparr>"
  defines "crateTarget \<equiv> \<lparr>x = x target + dx, y = y target + dy\<rparr>"
  obtains
    (blocked) "attemptMove lv b dir dx dy c = (Blocked, c\<lparr>bulldozerSprite := Some (b\<lparr>direction := dir\<rparr>)\<rparr>)"
  | (free) "attemptMove lv b dir dx dy c =
      (Moved,
       c\<lparr>lastMove := Some \<lparr>bulldozerPos = cellOf b, bulldozerDirection = dir,
                           cratePos = None, crateIndex = None\<rparr>,
         bulldozerSprite := Some (startMoveTo target (b\<lparr>direction := dir\<rparr>)),
         moveCount := moveCount c + 1\<rparr>)"
  | (push) i crate where
      "crateAtTarget target (crateSprites c) = Some (i, crate)"
      "anotherCrate i crateTarget (crateSprites c) = None"
      "attemptMove lv b dir dx dy c =
        (Moved,
         c\<lparr>crateSprites := (crateSprites c)[i := startMoveTo crateTarget crate],
           lastMove := Some \<lparr>bulldozerPos = cellOf b, bulldozerDirection = dir,
                             cratePos = Some (cellOf crate), crateIndex = Some i\<rparr>,
           bulldozerSprite := Some (startMoveTo target (b\<lparr>direction := dir\<rparr>)),
           moveCount := moveCount c + 1\<rparr>)"
proof (cases "outOfBounds lv target \<or> isWall c target \<or>
      (\<exists>i crate. crateAtTarget target (crateSprites c) = Some (i, crate) \<and>
         (outOfBounds lv crateTarget \<or> isWall c crateTarget \<or>
          anotherCrate i crateTarget (crateSprites c) \<noteq> None))")
  case True
  from attemptMove_blocked[OF target_def[THEN meta_eq_to_obj_eq] crateTarget_def[THEN meta_eq_to_obj_eq] True]
  show ?thesis by (rule blocked)
next
  case False
  then have t: "\<not> outOfBounds lv target" "\<not> isWall c target" by simp_all
  show ?thesis
  proof (cases "crateAtTarget target (crateSprites c)")
    case None
    from attemptMove_free[OF target_def[THEN meta_eq_to_obj_eq] t None]
    show ?thesis by (rule free)
  next
    case (Some ic)
    obtain i crate where ic: "ic = (i, crate)" by (cases ic)
    from Some ic have f: "crateAtTarget target (crateSprites c) = Some (i, crate)" by simp
    from False f have "\<not> (outOfBounds lv crateTarget \<or> isWall c crateTarget \<or>
          anotherCrate i crateTarget (crateSprites c) \<noteq> None)" by blast
    then have n: "\<not> outOfBounds lv crateTarget" "\<not> isWall c crateTarget"
      "anotherCrate i crateTarget (crateSprites c) = None" by blast+
    from attemptMove_push[OF target_def[THEN meta_eq_to_obj_eq] t f
        crateTarget_def[THEN meta_eq_to_obj_eq] n]
    show ?thesis using f n(3) by (rule push[rotated 2])
  qed
qed

lemma keySwitch_unit:
  "keySwitch key = Some (dir, dx, dy) \<Longrightarrow>
     (dx = 0 \<and> (dy = 1 \<or> dy = - 1)) \<or> (dy = 0 \<and> (dx = 1 \<or> dx = - 1))"
  by (auto simp: keySwitch_def split: if_splits)

lemma cratesApart_update:
  assumes inv: "cratesApart c" and dt: "0 \<le> dt"
  shows "cratesApart (update dt c)"
proof -
  define cs where "cs = crateSprites c"
  define n where "n = length cs"
  have cs': "crateSprites (update dt c) = map (update_sprite dt) cs"
    and lm': "lastMove (update dt c) = lastMove c"
    by (simp_all add: update_def cs_def)
  have nth': "\<And>k. k < n \<Longrightarrow> crateSprites (update dt c) ! k = update_sprite dt (cs ! k)"
    by (simp add: cs' n_def)
  have len': "length (crateSprites (update dt c)) = n" by (simp add: cs' n_def)
  from inv have I1: "\<And>i j. i < n \<Longrightarrow> j < n \<Longrightarrow> i \<noteq> j \<Longrightarrow> cellOf (cs ! i) \<noteq> cellOf (cs ! j)"
    unfolding cratesApart_def cs_def n_def by blast
  from inv have I2: "\<And>i. i < n \<Longrightarrow> isMoving (cs ! i) \<Longrightarrow>
        0 \<le> moveProgress (cs ! i) \<and>
        adjacentCells (moveStartPos (cs ! i)) (moveEndPos (cs ! i)) \<and>
        (\<forall>j<n. j \<noteq> i \<longrightarrow>
           cellOf (cs ! j) \<noteq> cellAt (moveStartPos (cs ! i)) \<and>
           cellOf (cs ! j) \<noteq> cellAt (moveEndPos (cs ! i))) \<and>
        (\<exists>r. lastMove c = Some r \<and> crateIndex r = Some i)"
    unfolding cratesApart_def cs_def n_def by blast
  from inv have I3: "\<And>r i p j. lastMove c = Some r \<Longrightarrow> crateIndex r = Some i \<Longrightarrow>
        cratePos r = Some p \<Longrightarrow> i < n \<Longrightarrow> j < n \<Longrightarrow> j \<noteq> i \<Longrightarrow> cellOf (cs ! j) \<noteq> cellAt p"
    unfolding cratesApart_def cs_def n_def by blast
  have uniq: "\<And>i j. i < n \<Longrightarrow> j < n \<Longrightarrow> isMoving (cs ! i) \<Longrightarrow> isMoving (cs ! j) \<Longrightarrow> i = j"
  proof -
    fix i j assume a: "i < n" "j < n" "isMoving (cs ! i)" "isMoving (cs ! j)"
    from I2[OF a(1,3)] obtain r where "lastMove c = Some r" "crateIndex r = Some i" by blast
    moreover from I2[OF a(2,4)] obtain r' where "lastMove c = Some r'" "crateIndex r' = Some j"
      by blast
    ultimately show "i = j" by simp
  qed
  have cell: "\<And>i. i < n \<Longrightarrow> isMoving (cs ! i) \<Longrightarrow>
      cellOf (update_sprite dt (cs ! i)) = cellAt (moveStartPos (cs ! i)) \<or>
      cellOf (update_sprite dt (cs ! i)) = cellAt (moveEndPos (cs ! i))"
    using I2 dt by (intro update_sprite_cell) simp_all
  have one: "\<And>i j. i < n \<Longrightarrow> j < n \<Longrightarrow> i \<noteq> j \<Longrightarrow> isMoving (cs ! i) \<Longrightarrow>
      cellOf (update_sprite dt (cs ! i)) \<noteq> cellOf (update_sprite dt (cs ! j))"
  proof -
    fix i j assume a: "i < n" "j < n" "i \<noteq> j" "isMoving (cs ! i)"
    then have "\<not> isMoving (cs ! j)" using uniq by blast
    then have "update_sprite dt (cs ! j) = cs ! j" by simp
    moreover have "cellOf (cs ! j) \<noteq> cellAt (moveStartPos (cs ! i)) \<and>
           cellOf (cs ! j) \<noteq> cellAt (moveEndPos (cs ! i))" using I2 a by blast
    ultimately show "cellOf (update_sprite dt (cs ! i)) \<noteq> cellOf (update_sprite dt (cs ! j))"
      using cell[OF a(1,4)] by auto
  qed
  have C1: "\<forall>i<n. \<forall>j<n. i \<noteq> j \<longrightarrow>
      cellOf (update_sprite dt (cs ! i)) \<noteq> cellOf (update_sprite dt (cs ! j))"
  proof (intro allI impI)
    fix i j assume a: "i < n" "j < n" "i \<noteq> j"
    show "cellOf (update_sprite dt (cs ! i)) \<noteq> cellOf (update_sprite dt (cs ! j))"
    proof (cases "isMoving (cs ! i)")
      case True
      with a show ?thesis by (rule one)
    next
      case False
      show ?thesis
      proof (cases "isMoving (cs ! j)")
        case True
        from one[OF a(2,1) a(3)[symmetric] True] show ?thesis by simp
      next
        case F2: False
        with False I1[OF a] show ?thesis by simp
      qed
    qed
  qed
  have C2: "\<forall>i<n. isMoving (update_sprite dt (cs ! i)) \<longrightarrow>
        0 \<le> moveProgress (update_sprite dt (cs ! i)) \<and>
        adjacentCells (moveStartPos (update_sprite dt (cs ! i))) (moveEndPos (update_sprite dt (cs ! i))) \<and>
        (\<forall>j<n. j \<noteq> i \<longrightarrow>
           cellOf (update_sprite dt (cs ! j)) \<noteq> cellAt (moveStartPos (update_sprite dt (cs ! i))) \<and>
           cellOf (update_sprite dt (cs ! j)) \<noteq> cellAt (moveEndPos (update_sprite dt (cs ! i)))) \<and>
        (\<exists>r. lastMove c = Some r \<and> crateIndex r = Some i)"
  proof (intro allI impI)
    fix i assume i: "i < n" and m': "isMoving (update_sprite dt (cs ! i))"
    from update_sprite_still_moving[OF m'] have m: "isMoving (cs ! i)"
      and p: "moveProgress (update_sprite dt (cs ! i)) = moveProgress (cs ! i) + dt / moveDuration"
      by simp_all
    note h = I2[OF i m]
    have "0 \<le> moveProgress (update_sprite dt (cs ! i))"
      unfolding p using h dt by (simp add: moveDuration_def)
    moreover have "\<forall>j<n. j \<noteq> i \<longrightarrow>
           cellOf (update_sprite dt (cs ! j)) \<noteq> cellAt (moveStartPos (cs ! i)) \<and>
           cellOf (update_sprite dt (cs ! j)) \<noteq> cellAt (moveEndPos (cs ! i))"
    proof (intro allI impI)
      fix j assume j: "j < n" "j \<noteq> i"
      then have "\<not> isMoving (cs ! j)" using uniq i m by blast
      then have "update_sprite dt (cs ! j) = cs ! j" by simp
      with h j show "cellOf (update_sprite dt (cs ! j)) \<noteq> cellAt (moveStartPos (cs ! i)) \<and>
           cellOf (update_sprite dt (cs ! j)) \<noteq> cellAt (moveEndPos (cs ! i))" by simp
    qed
    ultimately show "0 \<le> moveProgress (update_sprite dt (cs ! i)) \<and>
        adjacentCells (moveStartPos (update_sprite dt (cs ! i))) (moveEndPos (update_sprite dt (cs ! i))) \<and>
        (\<forall>j<n. j \<noteq> i \<longrightarrow>
           cellOf (update_sprite dt (cs ! j)) \<noteq> cellAt (moveStartPos (update_sprite dt (cs ! i))) \<and>
           cellOf (update_sprite dt (cs ! j)) \<noteq> cellAt (moveEndPos (update_sprite dt (cs ! i)))) \<and>
        (\<exists>r. lastMove c = Some r \<and> crateIndex r = Some i)"
      using h by simp
  qed
  have C3: "\<forall>r i p. lastMove c = Some r \<and> crateIndex r = Some i \<and> cratePos r = Some p \<and> i < n \<longrightarrow>
        (\<forall>j<n. j \<noteq> i \<longrightarrow> cellOf (update_sprite dt (cs ! j)) \<noteq> cellAt p)"
  proof (intro allI impI)
    fix r i p j
    assume a: "lastMove c = Some r \<and> crateIndex r = Some i \<and> cratePos r = Some p \<and> i < n"
      and j: "j < n" "j \<noteq> i"
    have "\<not> isMoving (cs ! j)"
    proof
      assume "isMoving (cs ! j)"
      with I2[OF j(1)] a j(2) show False by auto
    qed
    then have "update_sprite dt (cs ! j) = cs ! j" by simp
    with I3 a j show "cellOf (update_sprite dt (cs ! j)) \<noteq> cellAt p" by auto
  qed
  show ?thesis
    unfolding cratesApart_def len' lm' using C1 C2 C3 by (simp add: nth')
qed


lemma cratesApart_idle:
  assumes "\<not> list_ex isAnimating cs"
    and "\<forall>i<length cs. \<forall>j<length cs. i \<noteq> j \<longrightarrow> cellOf (cs ! i) \<noteq> cellOf (cs ! j)"
    and "\<forall>r i p. lm = Some r \<and> crateIndex r = Some i \<and> cratePos r = Some p \<and> i < length cs \<longrightarrow>
           (\<forall>j<length cs. j \<noteq> i \<longrightarrow> cellOf (cs ! j) \<noteq> cellAt p)"
  shows "cratesApart (c\<lparr>crateSprites := cs, lastMove := lm\<rparr>)"
  unfolding cratesApart_def using assms by (auto dest: idle_nth)

lemma cratesApart_cong:
  assumes "crateSprites c' = crateSprites c" "lastMove c' = lastMove c"
  shows "cratesApart c' = cratesApart c"
  unfolding cratesApart_def assms ..

lemma cratesApart_same:
  "cratesApart c \<Longrightarrow> crateSprites c' = crateSprites c \<Longrightarrow> lastMove c' = lastMove c \<Longrightarrow>
   cratesApart c'"
  using cratesApart_cong[of c' c] by blast

lemma cratesApart_checkLevelCompletion:
  "cratesApart c \<Longrightarrow> cratesApart (checkLevelCompletion c)"
  by (erule cratesApart_same) (simp_all add: checkLevelCompletion_def split: option.splits)

lemma cratesApart_undoLastMove:
  assumes inv: "cratesApart c"
  shows "cratesApart (undoLastMove c)"
proof (cases "undoLastMove c = c")
  case True
  then show ?thesis using inv by simp
next
  case False
  then obtain r b where r: "lastMove c = Some r" and b: "bulldozerSprite c = Some b"
    and idle: "\<not> list_ex isAnimating (crateSprites c)"
    by (auto simp: undoLastMove_def split: option.splits if_splits)
  define cs where "cs = crateSprites c"
  define cs' where "cs' =
    (case (cratePos r, crateIndex r) of
       (Some pos, Some i) \<Rightarrow> if i < length cs then cs[i := (cs ! i)\<lparr>position := pos\<rparr>] else cs
     | _ \<Rightarrow> cs)"
  from False r b idle have u: "crateSprites (undoLastMove c) = cs'" "lastMove (undoLastMove c) = None"
    by (auto simp: undoLastMove_def cs'_def cs_def split: option.splits if_splits)
  from inv have I1: "\<And>i j. i < length cs \<Longrightarrow> j < length cs \<Longrightarrow> i \<noteq> j \<Longrightarrow>
      cellOf (cs ! i) \<noteq> cellOf (cs ! j)"
    unfolding cratesApart_def cs_def by blast
  from inv r have I3: "\<And>i p j. crateIndex r = Some i \<Longrightarrow> cratePos r = Some p \<Longrightarrow>
      i < length cs \<Longrightarrow> j < length cs \<Longrightarrow> j \<noteq> i \<Longrightarrow> cellOf (cs ! j) \<noteq> cellAt p"
    unfolding cratesApart_def cs_def by blast
  have idle': "\<not> list_ex isAnimating cs'"
  proof (cases "\<exists>p i. cratePos r = Some p \<and> crateIndex r = Some i \<and> i < length cs")
    case True
    then obtain p i where k: "cratePos r = Some p" "crateIndex r = Some i" "i < length cs" by blast
    then have eq: "cs' = cs[i := (cs ! i)\<lparr>position := p\<rparr>]" by (simp add: cs'_def)
    have still: "\<forall>k<length cs. \<not> isMoving (cs ! k)"
      using idle by (auto simp: cs_def dest: idle_nth)
    have "\<not> isMoving (cs' ! j)" if "j < length cs'" for j
      using that still k(3) unfolding eq by (cases "j = i") simp_all
    then show ?thesis
      by (auto simp: list_ex_iff isAnimating_def in_set_conv_nth)
  next
    case False
    then have "cs' = cs" by (auto simp: cs'_def split: option.splits)
    then show ?thesis using idle by (simp add: cs_def)
  qed
  have dist: "\<forall>i<length cs'. \<forall>j<length cs'. i \<noteq> j \<longrightarrow> cellOf (cs' ! i) \<noteq> cellOf (cs' ! j)"
  proof (cases "\<exists>p i. cratePos r = Some p \<and> crateIndex r = Some i \<and> i < length cs")
    case True
    then obtain p k where k: "cratePos r = Some p" "crateIndex r = Some k" "k < length cs" by blast
    then have eq: "cs' = cs[k := (cs ! k)\<lparr>position := p\<rparr>]" by (simp add: cs'_def)
    have ck: "cellOf ((cs ! k)\<lparr>position := p\<rparr>) = cellAt p" by (simp add: cellOf_def cellAt_def)
    show ?thesis
    proof (intro allI impI)
      fix i j assume a: "i < length cs'" "j < length cs'" "i \<noteq> j"
      then have a': "i < length cs" "j < length cs" by (simp_all add: eq)
      show "cellOf (cs' ! i) \<noteq> cellOf (cs' ! j)"
      proof (cases "i = k")
        case True
        with a a' have "cellOf (cs' ! i) = cellAt p" "cellOf (cs' ! j) = cellOf (cs ! j)"
          by (simp_all add: eq ck)
        moreover have "cellOf (cs ! j) \<noteq> cellAt p" using I3[OF k(2,1,3) a'(2)] a True by simp
        ultimately show ?thesis by simp
      next
        case ik: False
        show ?thesis
        proof (cases "j = k")
          case True
          with a a' have "cellOf (cs' ! j) = cellAt p" "cellOf (cs' ! i) = cellOf (cs ! i)"
            by (simp_all add: eq ck)
          moreover have "cellOf (cs ! i) \<noteq> cellAt p" using I3[OF k(2,1,3) a'(1)] ik by simp
          ultimately show ?thesis by simp
        next
          case False
          with ik a' have "cs' ! i = cs ! i" "cs' ! j = cs ! j" by (simp_all add: eq)
          with I1[OF a' a(3)] show ?thesis by simp
        qed
      qed
    qed
  next
    case False
    then have "cs' = cs" by (auto simp: cs'_def split: option.splits)
    then show ?thesis using I1 by simp
  qed
  have "cratesApart ((undoLastMove c)\<lparr>crateSprites := cs', lastMove := None\<rparr>)"
    using idle' dist by (rule cratesApart_idle) simp
  then show ?thesis by (rule cratesApart_same) (simp_all add: u)
qed


lemma keySwitch_int:
  "keySwitch key = Some (dir, dx, dy) \<Longrightarrow> \<exists>kx ky. dx = of_int kx \<and> dy = of_int ky"
proof -
  assume "keySwitch key = Some (dir, dx, dy)"
  from keySwitch_unit[OF this] have "(dx = of_int 0 \<or> dx = of_int 1 \<or> dx = of_int (- 1)) \<and>
      (dy = of_int 0 \<or> dy = of_int 1 \<or> dy = of_int (- 1))" by auto
  then show ?thesis by blast
qed

lemma Math_round_step: "Math_round (Math_round v + of_int k + of_int k) = Math_round v + of_int k + of_int k"
proof -
  have "Math_round (Math_round v + of_int k + of_int k) = Math_round (Math_round v + of_int (k + k))"
    by (simp only: of_int_add add.assoc)
  also have "\<dots> = Math_round (Math_round v) + of_int (k + k)" by (rule Math_round_add_int)
  also have "\<dots> = Math_round v + of_int k + of_int k" by (simp only: Math_round_idem of_int_add add.assoc)
  finally show ?thesis .
qed

lemma crateTarget_cell:
  assumes "keySwitch key = Some (dir, dx, dy)"
  shows "Math_round (Math_round v + dx + dx) = Math_round v + dx + dx"
    and "Math_round (Math_round v + dy + dy) = Math_round v + dy + dy"
proof -
  from keySwitch_int[OF assms] obtain kx ky where k: "dx = of_int kx" "dy = of_int ky" by blast
  show "Math_round (Math_round v + dx + dx) = Math_round v + dx + dx"
    unfolding k by (rule Math_round_step)
  show "Math_round (Math_round v + dy + dy) = Math_round v + dy + dy"
    unfolding k by (rule Math_round_step)
qed

lemma cratesApart_push:
  assumes inv: "cratesApart c"
    and idle: "\<not> list_ex isAnimating (crateSprites c)"
    and key: "keySwitch key = Some (dir, dx, dy)"
    and target: "target = \<lparr>x = x (cellOf b) + dx, y = y (cellOf b) + dy\<rparr>"
    and crateTarget: "crateTarget = \<lparr>x = x target + dx, y = y target + dy\<rparr>"
    and found: "crateAtTarget target (crateSprites c) = Some (i, crate)"
    and free: "anotherCrate i crateTarget (crateSprites c) = None"
    and cs': "crateSprites c' = (crateSprites c)[i := startMoveTo crateTarget crate]"
    and lm': "lastMove c' = Some \<lparr>bulldozerPos = bp, bulldozerDirection = bd,
                             cratePos = Some (cellOf crate), crateIndex = Some i\<rparr>"
  shows "cratesApart c'"
proof -
  define cs where "cs = crateSprites c"
  define n where "n = length cs"
  from found have i: "i < n" and crate: "crate = cs ! i" and at: "cellOf (cs ! i) = target"
    by (simp_all add: crateAtTarget_Some cs_def n_def)
  from free have others: "\<And>j. j < n \<Longrightarrow> j \<noteq> i \<Longrightarrow> cellOf (cs ! j) \<noteq> crateTarget"
    by (simp add: anotherCrate_None cs_def n_def)
  from inv have I1: "\<And>i j. i < n \<Longrightarrow> j < n \<Longrightarrow> i \<noteq> j \<Longrightarrow> cellOf (cs ! i) \<noteq> cellOf (cs ! j)"
    unfolding cratesApart_def cs_def n_def by blast
  have still: "\<And>k. k < n \<Longrightarrow> \<not> isMoving (cs ! k)"
    using idle by (auto simp: cs_def n_def dest: idle_nth)
  define s1 where "s1 = startMoveTo crateTarget crate"
  have s1: "isMoving s1" "moveProgress s1 = 0" "moveStartPos s1 = position (cs ! i)"
    "moveEndPos s1 = crateTarget" "cellOf s1 = cellOf (cs ! i)"
    using still[OF i] by (simp_all add: s1_def crate startMoveTo_def cellOf_def)
  have len: "length (crateSprites c') = n" by (simp add: cs' cs_def n_def)
  have nth_i: "crateSprites c' ! i = s1" using i by (simp add: cs' cs_def n_def s1_def)
  have nth_o: "\<And>k. k < n \<Longrightarrow> k \<noteq> i \<Longrightarrow> crateSprites c' ! k = cs ! k"
    by (simp add: cs' cs_def)
  have cells: "\<And>k. k < n \<Longrightarrow> cellOf (crateSprites c' ! k) = cellOf (cs ! k)"
    using nth_i nth_o s1(5) by metis
  have moving: "\<And>k. k < n \<Longrightarrow> isMoving (crateSprites c' ! k) \<Longrightarrow> k = i"
    using nth_o still by metis
  have tx: "x target = Math_round (x (position (cs ! i)))" "y target = Math_round (y (position (cs ! i)))"
    using at by (simp_all add: cellOf_eq_iff)
  have ct: "cellAt crateTarget = crateTarget"
    unfolding crateTarget target cellAt_def
    by (simp only: Position.select_convs cellOf_def crateTarget_cell[OF key])
  have start: "cellAt (position (cs ! i)) = cellOf (cs ! i)" by (simp add: cellAt_def cellOf_def)
  have adj: "adjacentCells (position (cs ! i)) crateTarget"
  proof -
    have "Math_round (x crateTarget) = x crateTarget" "Math_round (y crateTarget) = y crateTarget"
      using ct by (simp_all add: cellAt_def) (metis Position.select_convs)+
    then show ?thesis
      unfolding adjacentCells_def using keySwitch_unit[OF key]
      by (auto simp: crateTarget tx[symmetric])
  qed
  have C1: "\<forall>a<n. \<forall>b<n. a \<noteq> b \<longrightarrow> cellOf (crateSprites c' ! a) \<noteq> cellOf (crateSprites c' ! b)"
    using I1 by (simp add: cells)
  have C2: "\<forall>k<n. isMoving (crateSprites c' ! k) \<longrightarrow>
        0 \<le> moveProgress (crateSprites c' ! k) \<and>
        adjacentCells (moveStartPos (crateSprites c' ! k)) (moveEndPos (crateSprites c' ! k)) \<and>
        (\<forall>j<n. j \<noteq> k \<longrightarrow>
           cellOf (crateSprites c' ! j) \<noteq> cellAt (moveStartPos (crateSprites c' ! k)) \<and>
           cellOf (crateSprites c' ! j) \<noteq> cellAt (moveEndPos (crateSprites c' ! k))) \<and>
        (\<exists>r. lastMove c' = Some r \<and> crateIndex r = Some k)"
  proof (intro allI impI)
    fix k assume k: "k < n" "isMoving (crateSprites c' ! k)"
    then have ki: "k = i" by (rule moving)
    have "\<forall>j<n. j \<noteq> i \<longrightarrow> cellOf (crateSprites c' ! j) \<noteq> cellOf (cs ! i) \<and>
           cellOf (crateSprites c' ! j) \<noteq> crateTarget"
      using I1 i others by (simp add: cells)
    then show "0 \<le> moveProgress (crateSprites c' ! k) \<and>
        adjacentCells (moveStartPos (crateSprites c' ! k)) (moveEndPos (crateSprites c' ! k)) \<and>
        (\<forall>j<n. j \<noteq> k \<longrightarrow>
           cellOf (crateSprites c' ! j) \<noteq> cellAt (moveStartPos (crateSprites c' ! k)) \<and>
           cellOf (crateSprites c' ! j) \<noteq> cellAt (moveEndPos (crateSprites c' ! k))) \<and>
        (\<exists>r. lastMove c' = Some r \<and> crateIndex r = Some k)"
      unfolding ki nth_i s1 using adj by (simp add: ct start lm')
  qed
  have C3: "\<forall>r k p. lastMove c' = Some r \<and> crateIndex r = Some k \<and> cratePos r = Some p \<and> k < n \<longrightarrow>
        (\<forall>j<n. j \<noteq> k \<longrightarrow> cellOf (crateSprites c' ! j) \<noteq> cellAt p)"
  proof (intro allI impI)
    fix r k p j
    assume a: "lastMove c' = Some r \<and> crateIndex r = Some k \<and> cratePos r = Some p \<and> k < n"
      and j: "j < n" "j \<noteq> k"
    from a have "k = i" "p = cellOf (cs ! i)" by (auto simp: lm' crate)
    moreover have "cellAt (cellOf (cs ! i)) = cellOf (cs ! i)" by (simp add: cellAt_def cellOf_def)
    ultimately show "cellOf (crateSprites c' ! j) \<noteq> cellAt p"
      using I1[OF j(1) i] j by (simp add: cells)
  qed
  show ?thesis unfolding cratesApart_def len using C1 C2 C3 by blast
qed

lemma cratesApart_handleMovement:
  assumes inv: "cratesApart c"
  shows "cratesApart (snd (handleMovement key c))"
proof (cases "fst (handleMovement key c) = Ignored")
  case True
  then show ?thesis using inv by (simp add: handleMovement_Ignored)
next
  case False
  from handleMovement_not_Ignored[OF False] obtain lv b dir dx dy where
    idle: "\<not> list_ex isAnimating (crateSprites c)"
    and key: "keySwitch key = Some (dir, dx, dy)"
    and hm: "handleMovement key c = attemptMove lv b dir dx dy c"
    by blast
  show ?thesis
  proof (cases rule: attemptMove_cases[of lv b dir dx dy c])
    case blocked
    show ?thesis using inv by (rule cratesApart_same) (simp_all add: hm blocked)
  next
    case free
    let ?r = "\<lparr>bulldozerPos = cellOf b, bulldozerDirection = dir, cratePos = None, crateIndex = None\<rparr>"
    from inv have "\<forall>i<length (crateSprites c). \<forall>j<length (crateSprites c).
        i \<noteq> j \<longrightarrow> cellOf (crateSprites c ! i) \<noteq> cellOf (crateSprites c ! j)"
      unfolding cratesApart_def by blast
    with idle have "cratesApart (c\<lparr>crateSprites := crateSprites c, lastMove := Some ?r\<rparr>)"
      by (rule cratesApart_idle) simp
    then show ?thesis by (rule cratesApart_same) (simp_all add: hm free)
  next
    case (push i crate)
    show ?thesis
      by (rule cratesApart_push[OF inv idle key refl refl push(1,2)]) (simp_all add: hm push(3))
  qed
qed

lemma cratesApart_loadLevel:
  assumes "lastMove c = None"
    and "distinct (map (\<lambda>crate. cellAt (Crate.position crate)) (crates lv))"
  shows "cratesApart (loadLevel (Some lv) c)"
proof -
  define cs where "cs = map (\<lambda>crate. new_CrateSprite (Crate.position crate) (Crate.color crate)) (crates lv)"
  have l: "crateSprites (loadLevel (Some lv) c) = cs" "lastMove (loadLevel (Some lv) c) = None"
    using assms(1) by (simp_all add: loadLevel_def initializeLevel_def cs_def)
  have cells: "map cellOf cs = map (\<lambda>crate. cellAt (Crate.position crate)) (crates lv)"
    by (simp add: cs_def cellOf_def cellAt_def new_CrateSprite_def)
  have idle: "\<not> list_ex isAnimating cs"
    by (simp add: cs_def list_ex_iff isAnimating_def new_CrateSprite_def)
  have "distinct (map cellOf cs)" using assms(2) by (simp only: cells)
  then have "\<forall>i<length cs. \<forall>j<length cs. i \<noteq> j \<longrightarrow> cellOf (cs ! i) \<noteq> cellOf (cs ! j)"
    by (simp add: distinct_conv_nth)
  with idle have "cratesApart ((loadLevel (Some lv) c)\<lparr>crateSprites := cs, lastMove := None\<rparr>)"
    by (rule cratesApart_idle) simp
  then show ?thesis by (rule cratesApart_same) (simp_all add: l)
qed

lemma cratesApart_step: "cratesApart c \<Longrightarrow> elapses e \<Longrightarrow> cratesApart (step e c)"
  by (cases e)
     (simp_all add: cratesApart_handleMovement cratesApart_undoLastMove cratesApart_update
        cratesApart_checkLevelCompletion)

lemma cratesApart_run:
  "cratesApart c \<Longrightarrow> \<forall>e\<in>set events. elapses e \<Longrightarrow> cratesApart (run events c)"
  unfolding run_def by (induction events arbitrary: c) (simp_all add: cratesApart_step)

text \<open>
  Where the component holds no undo record when a level with crates on pairwise distinct
  cells is loaded, no sequence of keys, undos, frames and completion checks brings two
  crates onto one cell, at rest or in motion. The frames are those of the model, in exact
  arithmetic.
\<close>

lemma crates_stay_apart:
  assumes "lastMove c = None"
    and "distinct (map (\<lambda>crate. cellAt (Crate.position crate)) (crates lv))"
    and "\<forall>e\<in>set events. elapses e"
  shows "distinct (map cellOf (crateSprites (run events (loadLevel (Some lv) c))))"
proof -
  have "cratesApart (run events (loadLevel (Some lv) c))"
    using cratesApart_loadLevel[OF assms(1,2)] assms(3) by (rule cratesApart_run)
  then show ?thesis by (simp add: cratesApart_def distinct_conv_nth)
qed

lemma crates_stay_apart_example:
  "distinct (map cellOf (crateSprites
     (run [KeyDown ''ArrowRight'', Frame 100, UndoKey, Frame 150, CompletionTimer, UndoKey]
        (loadLevel (Some twoCrateLevel) new_LevelComponent))))"
  by (rule crates_stay_apart) (simp_all add: new_LevelComponent_def twoCrateLevel_def cellAt_def)

section \<open>Crates and the undo record across levels\<close>

text \<open>
  C8. The open scenario level is completed by one push to the right, which leaves the undo
  record (crate 0, from (2,1)). \<open>loadLevel\<close> then installs \<open>twoCrateLevel\<close>, whose crates
  start on distinct cells; \<open>initializeLevel\<close> resets the completion flag and the move
  counter but keeps the record. One \<open>undoLastMove\<close> on the new level puts its crate 0 on
  (2,1), the cell of its crate 1.
\<close>

theorem stale_undo_record_stacks_crates:
  "validateLevel twoCrateLevel = Inr True \<and>
   distinct (map (\<lambda>crate. cellAt (Crate.position crate)) (crates twoCrateLevel)) \<and>
   isLevelComplete
     (checkLevelCompletion (frames [250] (snd (handleMovement ''ArrowRight'' (scenarioStart []))))) \<and>
   map cellOf (crateSprites (loadLevel (Some twoCrateLevel)
     (checkLevelCompletion (frames [250] (snd (handleMovement ''ArrowRight'' (scenarioStart [])))))))
     = [\<lparr>x = 0, y = 0\<rparr>, \<lparr>x = 2, y = 1\<rparr>] \<and>
   map cellOf (crateSprites (undoLastMove (loadLevel (Some twoCrateLevel)
     (checkLevelCompletion (frames [250] (snd (handleMovement ''ArrowRight'' (scenarioStart []))))))))
     = [\<lparr>x = 2, y = 1\<rparr>, \<lparr>x = 2, y = 1\<rparr>]"
proof -
  have v: "validateLevel twoCrateLevel = Inr True"
    by (simp add: twoCrateLevel_def validateLevel_def validateCandidate_def
        candidate_def candidatePosition_def js_gt_def js_ge_def coloredCrates_def
        crateColors_def endPositionColors_def validatePosition_def)
  have d: "distinct (map (\<lambda>crate. cellAt (Crate.position crate)) (crates twoCrateLevel))"
    by (simp add: twoCrateLevel_def cellAt_def)
  show ?thesis
    unfolding scenario_right_open_settled[OF frame_250]
    using v d
    by (simp add: allEndPositionsFilled_def checkLevelCompletion_def scenarioLevel_def getColor_def
          loadLevel_def initializeLevel_def twoCrateLevel_def new_CrateSprite_def
          new_BulldozerSprite_def undoLastMove_def isAnimating_def setDirection_def cellOf_def)
qed

end
